theory Spec2Isabelle
  imports Complex_Main
begin

section \<open>Strings and numbers of the source language\<close>

text \<open>
  The module \<^verbatim>\<open>projects.ts\<close> is TypeScript. A string is modelled by the list of its code
  units below 256 (the Latin-1 range of UTF-16), one \<^typ>\<open>char\<close> each. A \<^verbatim>\<open>number\<close>
  is an IEEE 754 double: it is modelled by the \<^typ>\<open>real\<close> it denotes, and the arithmetic
  of the scoring loop rounds to the nearest double (see below). A \<^verbatim>\<open>number\<close> read from
  an \<^verbatim>\<open>INTEGER\<close> column is an \<^typ>\<open>int\<close>.
\<close>

definition isUpperCase :: "char \<Rightarrow> bool" where
  "isUpperCase c =
     (let n = (of_char c :: nat)
      in (65 \<le> n \<and> n \<le> 90) \<or> (192 \<le> n \<and> n \<le> 222 \<and> n \<noteq> 215))"

text \<open>\<^verbatim>\<open>String.prototype.toLowerCase\<close>: \<^verbatim>\<open>A-Z\<close> and the accented capitals move up by 32.\<close>

definition toLowerCaseChar :: "char \<Rightarrow> char" where
  "toLowerCaseChar c = (if isUpperCase c then char_of ((of_char c :: nat) + 32) else c)"

definition toLowerCase :: "string \<Rightarrow> string" where
  "toLowerCase s = map toLowerCaseChar s"

text \<open>The regular-expression class \<^verbatim>\<open>\w\<close> is \<^verbatim>\<open>[A-Za-z0-9_]\<close>.\<close>

definition isWordChar :: "char \<Rightarrow> bool" where
  "isWordChar c =
     (let n = (of_char c :: nat)
      in (48 \<le> n \<and> n \<le> 57) \<or> (65 \<le> n \<and> n \<le> 90) \<or> n = 95 \<or> (97 \<le> n \<and> n \<le> 122))"

text \<open>The class \<^verbatim>\<open>\s\<close> below 256: tab, line feed, vertical tab, form feed, carriage
  return, space and the no-break space.\<close>

definition isSpace :: "char \<Rightarrow> bool" where
  "isSpace c = (let n = (of_char c :: nat) in (9 \<le> n \<and> n \<le> 13) \<or> n = 32 \<or> n = 160)"

text \<open>\<^verbatim>\<open>.replace(/[^\w\s]/g, '')\<close> deletes every character outside both classes.\<close>

definition stripNonWord :: "string \<Rightarrow> string" where
  "stripNonWord s = filter (\<lambda>c. isWordChar c \<or> isSpace c) s"

text \<open>
  \<^verbatim>\<open>.split(/\s+/)\<close>: the pieces between maximal runs of whitespace. The piece before a
  leading run and the piece after a trailing run are empty strings, and the empty string
  splits into one empty piece. \<open>cur\<close> is the piece being read, \<open>inRun\<close> says that the
  previous character was whitespace.
\<close>

fun splitLoop :: "string \<Rightarrow> bool \<Rightarrow> string \<Rightarrow> string list" where
  "splitLoop cur inRun [] = [cur]"
| "splitLoop cur inRun (c # cs) =
     (if isSpace c then (if inRun then splitLoop [] True cs else cur # splitLoop [] True cs)
      else splitLoop (cur @ [c]) False cs)"

definition splitWhitespace :: "string \<Rightarrow> string list" where
  "splitWhitespace s = splitLoop [] False s"

text \<open>\<^verbatim>\<open>[...new Set(words)]\<close>: a \<^verbatim>\<open>Set\<close> keeps insertion order and ignores a value it
  already holds.\<close>

fun newSet :: "'a list \<Rightarrow> 'a list \<Rightarrow> 'a list" where
  "newSet seen [] = seen"
| "newSet seen (w # ws) = (if w \<in> set seen then newSet seen ws else newSet (seen @ [w]) ws)"

text \<open>\<^verbatim>\<open>String.prototype.includes\<close>: the needle occurs at some position of the receiver.\<close>

fun startsWith :: "string \<Rightarrow> string \<Rightarrow> bool" where
  "startsWith s [] = True"
| "startsWith [] (n # ns) = False"
| "startsWith (c # cs) (n # ns) = (c = n \<and> startsWith cs ns)"

fun includesStr :: "string \<Rightarrow> string \<Rightarrow> bool" where
  "includesStr [] needle = (needle = [])"
| "includesStr (c # cs) needle = (startsWith (c # cs) needle \<or> includesStr cs needle)"

text \<open>\<^verbatim>\<open>Math.round(x)\<close> is the integer nearest to \<open>x\<close>, a tie going up.\<close>

definition Math_round :: "real \<Rightarrow> real" where
  "Math_round x = of_int \<lfloor>x + 1 / 2\<rfloor>"

subsection \<open>Double-precision arithmetic\<close>

text \<open>
  A finite double is a real of the form \<open>m * 2 ^ e\<close> with an integer \<open>m\<close> of at most 53
  bits and \<open>e \<ge> -1074\<close>. An arithmetic operation of JavaScript returns the exact result
  rounded to the nearest double, a tie going to the even significand, and a decimal
  literal denotes the double nearest to it. \<open>toDouble\<close> is that rounding: it finds the
  binary exponent \<open>e\<close> of its argument (\<open>2 ^ e \<le> \<bar>x\<bar> < 2 ^ (e + 1)\<close>, not below the exponent
  \<open>-1022\<close> of the subnormal numbers) and rounds to a multiple of \<open>2 ^ (e - 52)\<close>. The scores
  of the module lie between 0 and 100, far from the largest double, so overflow to
  \<^verbatim>\<open>Infinity\<close> is not modelled; \<^verbatim>\<open>NaN\<close> does not arise, the one division being guarded.
\<close>

definition roundHalfEven :: "real \<Rightarrow> int" where
  "roundHalfEven y =
     (let n = \<lfloor>y\<rfloor>; r = y - of_int n
      in if r < 1 / 2 then n else if r > 1 / 2 then n + 1 else if even n then n else n + 1)"

function expUp :: "real \<Rightarrow> int" where
  "expUp x = (if x \<ge> 2 then expUp (x / 2) + 1 else 0)"
  by pat_completeness auto
termination
proof (relation "measure (\<lambda>x. nat \<lfloor>x\<rfloor>)")
  show "wf (measure (\<lambda>x::real. nat \<lfloor>x\<rfloor>))" by simp
next
  fix x :: real
  assume x: "2 \<le> x"
  then have "x / 2 \<le> x - 1" by simp
  then have "\<lfloor>x / 2\<rfloor> \<le> \<lfloor>x - 1\<rfloor>" by (rule floor_mono)
  moreover have "\<lfloor>x - 1\<rfloor> = \<lfloor>x\<rfloor> - 1" by simp
  moreover from x have "2 \<le> \<lfloor>x\<rfloor>" by (simp add: le_floor_iff)
  ultimately show "(x / 2, x) \<in> measure (\<lambda>x. nat \<lfloor>x\<rfloor>)" by simp
qed

function expDown :: "real \<Rightarrow> int" where
  "expDown x = (if 0 < x \<and> x < 1 then expDown (x * 2) - 1 else 0)"
  by pat_completeness auto
termination
proof (relation "measure (\<lambda>x. nat \<lceil>1 / x\<rceil>)")
  show "wf (measure (\<lambda>x::real. nat \<lceil>1 / x\<rceil>))" by simp
next
  fix x :: real
  assume x: "0 < x \<and> x < 1"
  then have one: "1 < 1 / x" by simp
  then have two: "2 \<le> \<lceil>1 / x\<rceil>" by (simp add: le_ceiling_iff)
  have "1 / x \<le> of_int \<lceil>1 / x\<rceil>" by (rule le_of_int_ceiling)
  then have "1 / (x * 2) \<le> of_int \<lceil>1 / x\<rceil> / 2" by simp
  also from two have "of_int \<lceil>1 / x\<rceil> / 2 \<le> (of_int (\<lceil>1 / x\<rceil> - 1) :: real)" by simp
  finally have "\<lceil>1 / (x * 2)\<rceil> \<le> \<lceil>1 / x\<rceil> - 1" by (simp only: ceiling_le_iff)
  then have "\<lceil>1 / (x * 2)\<rceil> < \<lceil>1 / x\<rceil>" by simp
  with x show "(x * 2, x) \<in> measure (\<lambda>x. nat \<lceil>1 / x\<rceil>)" by (simp add: zless_nat_conj)
qed

text \<open>The binary exponent of a positive real.\<close>

definition binaryExponent :: "real \<Rightarrow> int" where
  "binaryExponent x = (if x \<ge> 1 then expUp x else expDown x)"

definition pow2 :: "int \<Rightarrow> real" where
  "pow2 e = (if e \<ge> 0 then 2 ^ nat e else 1 / 2 ^ nat (- e))"

definition toDouble :: "real \<Rightarrow> real" where
  "toDouble x =
     (if x = 0 then 0
      else let e = max (binaryExponent \<bar>x\<bar>) (- 1022);
               quantum = pow2 (e - 52)
           in of_int (roundHalfEven (x / quantum)) * quantum)"

text \<open>The operators \<^verbatim>\<open>*\<close>, \<^verbatim>\<open>+\<close> and \<^verbatim>\<open>/\<close> on doubles.\<close>

definition dmul :: "real \<Rightarrow> real \<Rightarrow> real" where
  "dmul a b = toDouble (a * b)"

definition dadd :: "real \<Rightarrow> real \<Rightarrow> real" where
  "dadd a b = toDouble (a + b)"

definition ddiv :: "real \<Rightarrow> real \<Rightarrow> real" where
  "ddiv a b = toDouble (a / b)"

section \<open>The scoring helpers\<close>

definition extractKeywords :: "string \<Rightarrow> string list" where
  "extractKeywords text =
     (let words = filter (\<lambda>word. length word > 3)
                    (splitWhitespace (stripNonWord (toLowerCase text)))
      in newSet [] words)"

text \<open>The inner loop of \<^verbatim>\<open>calculateExpertiseMatch\<close>: it leaves at the first tag that
  contains the keyword or is contained in it.\<close>

fun keywordMatches :: "string list \<Rightarrow> string \<Rightarrow> bool" where
  "keywordMatches [] keyword = False"
| "keywordMatches (tag # tags) keyword =
     (if includesStr tag keyword \<or> includesStr keyword tag then True
      else keywordMatches tags keyword)"

text \<open>The outer loop, with the counter \<^verbatim>\<open>matches\<close> as accumulator.\<close>

fun countMatches :: "string list \<Rightarrow> string list \<Rightarrow> nat \<Rightarrow> nat" where
  "countMatches lowerExpertise [] matches = matches"
| "countMatches lowerExpertise (keyword # keywords) matches =
     countMatches lowerExpertise keywords
       (if keywordMatches lowerExpertise keyword then matches + 1 else matches)"

definition calculateExpertiseMatch :: "string list \<Rightarrow> string list \<Rightarrow> real" where
  "calculateExpertiseMatch expertise projectKeywords =
     (let lowerExpertise = map toLowerCase expertise;
          matches = countMatches lowerExpertise projectKeywords 0
      in if length projectKeywords > 0
         then real matches / real (length projectKeywords) else 0)"

definition calculateExperienceScore :: "int \<Rightarrow> real" where
  "calculateExperienceScore experienceYears =
     (if experienceYears \<ge> 15 then 1.0
      else if experienceYears \<ge> 10 then 0.9
      else if experienceYears \<ge> 7 then 0.8
      else if experienceYears \<ge> 5 then 0.7
      else if experienceYears \<ge> 3 then 0.6
      else if experienceYears \<ge> 1 then 0.5
      else 0.3)"

section \<open>The data model\<close>

datatype project_status = Status_open | Status_in_progress | Status_completed | Status_cancelled

datatype match_status = Match_pending | Match_accepted | Match_rejected | Match_completed

text \<open>The \<^verbatim>\<open>status\<close> parameter of \<^verbatim>\<open>updateMatchStatus\<close> has the type
  \<^verbatim>\<open>'accepted' | 'rejected' | 'completed'\<close>.\<close>

datatype new_status = To_accepted | To_rejected | To_completed

fun status_of :: "new_status \<Rightarrow> match_status" where
  "status_of To_accepted = Match_accepted"
| "status_of To_rejected = Match_rejected"
| "status_of To_completed = Match_completed"

text \<open>The interface \<^verbatim>\<open>Project\<close>; the fields carry the alias \<^verbatim>\<open>p\<close> of the queries.\<close>

record Project =
  p_id :: string
  p_sme_id :: string
  p_title :: string
  p_description :: string
  p_requirements :: string
  p_budget :: "real option"
  p_deadline :: "string option"
  p_status :: project_status
  p_created_at :: string
  p_updated_at :: string

text \<open>The interface \<^verbatim>\<open>ProjectMatch\<close>, alias \<^verbatim>\<open>pm\<close>.\<close>

record ProjectMatch =
  pm_id :: string
  pm_project_id :: string
  pm_consultant_id :: string
  pm_match_score :: real
  pm_status :: match_status
  pm_proposal :: "string option"
  pm_price :: "real option"
  pm_created_at :: string
  pm_updated_at :: string

text \<open>The columns of \<^verbatim>\<open>consultant_profiles\<close> that the matching reads, \<^verbatim>\<open>expertise\<close>
  already parsed from its JSON text.\<close>

record ConsultantProfile =
  c_id :: string
  c_expertise :: "string list"
  c_experience_years :: int

text \<open>The argument of \<^verbatim>\<open>createProject\<close>:
  \<^verbatim>\<open>Omit<Project, 'id' | 'sme_id' | 'status' | 'created_at' | 'updated_at'>\<close>.\<close>

record ProjectData =
  title :: string
  description :: string
  requirements :: string
  budget :: "real option"
  deadline :: "string option"

text \<open>The argument of \<^verbatim>\<open>updateProject\<close>:
  \<^verbatim>\<open>Partial<Omit<Project, 'id' | 'sme_id' | 'created_at' | 'updated_at'>>\<close>; \<open>None\<close> is
  \<^verbatim>\<open>undefined\<close>.\<close>

record ProjectPatch =
  new_title :: "string option"
  new_description :: "string option"
  new_requirements :: "string option"
  new_budget :: "real option option"
  new_deadline :: "string option option"
  new_status :: "project_status option"

text \<open>The element pushed on \<^verbatim>\<open>matches\<close> by the scoring loop.\<close>

record ScoredMatch =
  consultant_id :: string
  match_score :: real

text \<open>
  The database: the two tables the module writes and the table of consultants it reads,
  each a list of rows in insertion order. Of the schema's constraints the model keeps
  the primary keys of \<^verbatim>\<open>projects\<close> and \<^verbatim>\<open>project_matches\<close>: an \<^verbatim>\<open>INSERT\<close> of a
  present id fails.
\<close>

record database =
  projects :: "Project list"
  project_matches :: "ProjectMatch list"
  consultant_profiles :: "ConsultantProfile list"

text \<open>Every \<^verbatim>\<open>throw\<close> of the module, and the failure of an \<^verbatim>\<open>INSERT\<close>.\<close>

datatype error =
    Failed_to_create_project
  | Project_not_found_or_no_permission
  | Failed_to_update_project
  | Match_not_found_or_no_permission
  | Match_not_pending
  | Failed_to_update_match
  | Constraint_failed

section \<open>Match generation\<close>

text \<open>
  The loop over the consultants; \<open>matches\<close> is the array built so far. The two helpers
  above give exact values: the quotient that \<^verbatim>\<open>calculateExpertiseMatch\<close> returns is that
  value correctly rounded, and the literal that \<^verbatim>\<open>calculateExperienceScore\<close> returns is
  the double nearest to it, so both enter the arithmetic through \<open>toDouble\<close>. The literals
  \<^verbatim>\<open>0.6\<close>, \<^verbatim>\<open>0.4\<close> and \<^verbatim>\<open>0.3\<close> are doubles too; \<^verbatim>\<open>100\<close> is exact.
\<close>

fun scoreLoop :: "string list \<Rightarrow> ConsultantProfile list \<Rightarrow> ScoredMatch list \<Rightarrow> ScoredMatch list"
  where
  "scoreLoop projectKeywords [] matches = matches"
| "scoreLoop projectKeywords (consultant # rest) matches =
     (let expertiseMatch =
            toDouble (calculateExpertiseMatch (c_expertise consultant) projectKeywords);
          experienceScore =
            toDouble (calculateExperienceScore (c_experience_years consultant));
          matchScore = dadd (dmul expertiseMatch (toDouble 0.6))
                            (dmul experienceScore (toDouble 0.4))
      in scoreLoop projectKeywords rest
           (if matchScore \<ge> toDouble 0.3
            then matches @ [\<lparr>consultant_id = c_id consultant,
                             match_score = ddiv (Math_round (dmul matchScore 100)) 100\<rparr>]
            else matches))"

text \<open>The loop of \<^verbatim>\<open>INSERT\<close>s. \<open>matchIds i\<close> is the value of the \<open>i\<close>-th call of
  \<^verbatim>\<open>nanoid()\<close> in the loop. A failing \<^verbatim>\<open>INSERT\<close> throws and the rows written before it
  stay.\<close>

fun insertLoop ::
  "ProjectMatch list \<Rightarrow> string \<Rightarrow> string \<Rightarrow> (nat \<Rightarrow> string) \<Rightarrow> nat \<Rightarrow> ScoredMatch list
     \<Rightarrow> (error + unit) \<times> ProjectMatch list" where
  "insertLoop rows projectId now matchIds i [] = (Inr (), rows)"
| "insertLoop rows projectId now matchIds i (m # ms) =
     (let matchId = matchIds i
      in if matchId \<in> pm_id ` set rows then (Inl Constraint_failed, rows)
         else insertLoop
                (rows @ [\<lparr>pm_id = matchId, pm_project_id = projectId,
                           pm_consultant_id = consultant_id m, pm_match_score = match_score m,
                           pm_status = Match_pending, pm_proposal = None, pm_price = None,
                           pm_created_at = now, pm_updated_at = now\<rparr>])
                projectId now matchIds (Suc i) ms)"

text \<open>\<^verbatim>\<open>matches.sort((a, b) => b.match_score - a.match_score)\<close> is a stable sort, the
  highest score first; \<^verbatim>\<open>slice(0, 10)\<close> keeps the first ten.\<close>

definition topMatches :: "string list \<Rightarrow> ConsultantProfile list \<Rightarrow> ScoredMatch list" where
  "topMatches projectKeywords consultants =
     take 10 (sort_key (\<lambda>m. - match_score m) (scoreLoop projectKeywords consultants []))"

definition projectKeywordsOf :: "Project \<Rightarrow> string list" where
  "projectKeywordsOf project =
     extractKeywords (p_title project @ '' '' @ p_description project @ '' '' @
                      p_requirements project)"

definition generateProjectMatches ::
  "database \<Rightarrow> Project \<Rightarrow> string \<Rightarrow> (nat \<Rightarrow> string) \<Rightarrow> (error + unit) \<times> database" where
  "generateProjectMatches db project now matchIds =
     (let consultants = consultant_profiles db;
          projectKeywords = projectKeywordsOf project;
          (r, rows) = insertLoop (project_matches db) (p_id project) now matchIds 0
                        (topMatches projectKeywords consultants)
      in (r, db\<lparr>project_matches := rows\<rparr>))"

section \<open>The operations on projects and matches\<close>

text \<open>\<open>projectId\<close> is the value of \<^verbatim>\<open>nanoid()\<close>, \<open>now\<close> and \<open>now2\<close> the two readings of
  the clock (in \<^verbatim>\<open>createProject\<close> and in \<^verbatim>\<open>generateProjectMatches\<close>).\<close>

definition createProject ::
  "database \<Rightarrow> string \<Rightarrow> ProjectData \<Rightarrow> string \<Rightarrow> string \<Rightarrow> string \<Rightarrow> (nat \<Rightarrow> string)
     \<Rightarrow> (error + Project) \<times> database" where
  "createProject db smeId projectData projectId now now2 matchIds =
     (if projectId \<in> p_id ` set (projects db) then (Inl Constraint_failed, db)
      else
        let db1 = db\<lparr>projects := projects db @
                     [\<lparr>p_id = projectId, p_sme_id = smeId, p_title = title projectData,
                       p_description = description projectData,
                       p_requirements = requirements projectData,
                       p_budget = budget projectData, p_deadline = deadline projectData,
                       p_status = Status_open, p_created_at = now, p_updated_at = now\<rparr>]\<rparr>
        in case find (\<lambda>p. p_id p = projectId) (projects db1) of
             None \<Rightarrow> (Inl Failed_to_create_project, db1)
           | Some project \<Rightarrow>
               (case generateProjectMatches db1 project now2 matchIds of
                  (Inl e, db2) \<Rightarrow> (Inl e, db2)
                | (Inr u, db2) \<Rightarrow> (Inr project, db2)))"

text \<open>The \<^verbatim>\<open>UPDATE\<close> that \<^verbatim>\<open>updateProject\<close> assembles: a column is set when its field is
  not \<^verbatim>\<open>undefined\<close>, and \<^verbatim>\<open>updated_at\<close> always.\<close>

definition applyPatch :: "ProjectPatch \<Rightarrow> string \<Rightarrow> Project \<Rightarrow> Project" where
  "applyPatch projectData now p =
     p\<lparr>p_title := (case new_title projectData of None \<Rightarrow> p_title p | Some v \<Rightarrow> v),
       p_description := (case new_description projectData of None \<Rightarrow> p_description p | Some v \<Rightarrow> v),
       p_requirements := (case new_requirements projectData of None \<Rightarrow> p_requirements p | Some v \<Rightarrow> v),
       p_budget := (case new_budget projectData of None \<Rightarrow> p_budget p | Some v \<Rightarrow> v),
       p_deadline := (case new_deadline projectData of None \<Rightarrow> p_deadline p | Some v \<Rightarrow> v),
       p_status := (case new_status projectData of None \<Rightarrow> p_status p | Some v \<Rightarrow> v),
       p_updated_at := now\<rparr>"

definition updateProject ::
  "database \<Rightarrow> string \<Rightarrow> string \<Rightarrow> ProjectPatch \<Rightarrow> string \<Rightarrow> (error + Project) \<times> database" where
  "updateProject db projectId smeId projectData now =
     (case find (\<lambda>p. p_id p = projectId \<and> p_sme_id p = smeId) (projects db) of
        None \<Rightarrow> (Inl Project_not_found_or_no_permission, db)
      | Some existingProject \<Rightarrow>
          let db1 = db\<lparr>projects :=
                       map (\<lambda>p. if p_id p = projectId then applyPatch projectData now p else p)
                         (projects db)\<rparr>
          in case find (\<lambda>p. p_id p = projectId) (projects db1) of
               None \<Rightarrow> (Inl Failed_to_update_project, db1)
             | Some updatedProject \<Rightarrow> (Inr updatedProject, db1))"

definition deleteProject :: "database \<Rightarrow> string \<Rightarrow> string \<Rightarrow> (error + bool) \<times> database" where
  "deleteProject db projectId smeId =
     (case find (\<lambda>p. p_id p = projectId \<and> p_sme_id p = smeId) (projects db) of
        None \<Rightarrow> (Inl Project_not_found_or_no_permission, db)
      | Some existingProject \<Rightarrow>
          let db1 = db\<lparr>project_matches :=
                       filter (\<lambda>pm. pm_project_id pm \<noteq> projectId) (project_matches db)\<rparr>;
              db2 = db1\<lparr>projects := filter (\<lambda>p. p_id p \<noteq> projectId) (projects db1)\<rparr>
          in (Inr True, db2))"

definition submitProposal ::
  "database \<Rightarrow> string \<Rightarrow> string \<Rightarrow> string \<Rightarrow> real \<Rightarrow> string \<Rightarrow> (error + ProjectMatch) \<times> database"
  where
  "submitProposal db matchId consultantId proposal price now =
     (case find (\<lambda>pm. pm_id pm = matchId \<and> pm_consultant_id pm = consultantId)
             (project_matches db) of
        None \<Rightarrow> (Inl Match_not_found_or_no_permission, db)
      | Some existingMatch \<Rightarrow>
          if pm_status existingMatch \<noteq> Match_pending then (Inl Match_not_pending, db)
          else
            let db1 = db\<lparr>project_matches :=
                         map (\<lambda>pm. if pm_id pm = matchId
                                    then pm\<lparr>pm_proposal := Some proposal, pm_price := Some price,
                                            pm_updated_at := now\<rparr>
                                    else pm)
                           (project_matches db)\<rparr>
            in case find (\<lambda>pm. pm_id pm = matchId) (project_matches db1) of
                 None \<Rightarrow> (Inl Failed_to_update_match, db1)
               | Some updatedMatch \<Rightarrow> (Inr updatedMatch, db1))"

text \<open>The first query of \<^verbatim>\<open>updateMatchStatus\<close> joins the match with its project and
  asks for the project's owner.\<close>

definition ownedMatch :: "database \<Rightarrow> string \<Rightarrow> string \<Rightarrow> ProjectMatch option" where
  "ownedMatch db matchId smeId =
     find (\<lambda>pm. pm_id pm = matchId \<and>
                (\<exists>p \<in> set (projects db). pm_project_id pm = p_id p \<and> p_sme_id p = smeId))
       (project_matches db)"

definition setProjectStatus :: "string \<Rightarrow> project_status \<Rightarrow> string \<Rightarrow> database \<Rightarrow> database" where
  "setProjectStatus projectId st now db =
     db\<lparr>projects := map (\<lambda>p. if p_id p = projectId
                              then p\<lparr>p_status := st, p_updated_at := now\<rparr> else p)
                      (projects db)\<rparr>"

definition rejectOtherPending :: "string \<Rightarrow> string \<Rightarrow> string \<Rightarrow> database \<Rightarrow> database" where
  "rejectOtherPending projectId matchId now db =
     db\<lparr>project_matches :=
          map (\<lambda>pm. if pm_project_id pm = projectId \<and> pm_id pm \<noteq> matchId \<and>
                        pm_status pm = Match_pending
                     then pm\<lparr>pm_status := Match_rejected, pm_updated_at := now\<rparr> else pm)
            (project_matches db)\<rparr>"

definition updateMatchStatus ::
  "database \<Rightarrow> string \<Rightarrow> string \<Rightarrow> new_status \<Rightarrow> string \<Rightarrow> (error + ProjectMatch) \<times> database"
  where
  "updateMatchStatus db matchId smeId status now =
     (case ownedMatch db matchId smeId of
        None \<Rightarrow> (Inl Match_not_found_or_no_permission, db)
      | Some existingMatch \<Rightarrow>
          let db1 = db\<lparr>project_matches :=
                       map (\<lambda>pm. if pm_id pm = matchId
                                  then pm\<lparr>pm_status := status_of status, pm_updated_at := now\<rparr>
                                  else pm)
                         (project_matches db)\<rparr>;
              db2 = (if status = To_accepted
                     then rejectOtherPending (pm_project_id existingMatch) matchId now
                            (setProjectStatus (pm_project_id existingMatch)
                               Status_in_progress now db1)
                     else db1);
              db3 = (if status = To_completed
                     then setProjectStatus (pm_project_id existingMatch) Status_completed now db2
                     else db2)
          in case find (\<lambda>pm. pm_id pm = matchId) (project_matches db3) of
               None \<Rightarrow> (Inl Failed_to_update_match, db3)
             | Some updatedMatch \<Rightarrow> (Inr updatedMatch, db3))"

section \<open>Specification-side notions\<close>

text \<open>
  The specification's "split on whitespace runs", said without a loop: \<open>w\<close> is a
  token of \<open>s\<close> when it occurs in \<open>s\<close>, holds no whitespace, and is bounded on each side by
  whitespace or by the end of \<open>s\<close>.
\<close>

definition spec_token :: "string \<Rightarrow> string \<Rightarrow> bool" where
  "spec_token w s \<longleftrightarrow>
     (\<exists>pre post. s = pre @ w @ post \<and> (\<forall>c \<in> set w. \<not> isSpace c) \<and>
        (pre = [] \<or> isSpace (last pre)) \<and> (post = [] \<or> isSpace (hd post)))"

text \<open>The two ways a token can lie in the rest of the input of \<open>splitLoop\<close>: it
  continues the piece \<open>cur\<close> being read, or it starts after a later whitespace.\<close>

definition headPiece :: "string \<Rightarrow> string \<Rightarrow> string \<Rightarrow> bool" where
  "headPiece cur w s \<longleftrightarrow>
     (\<exists>w' post. s = w' @ post \<and> w = cur @ w' \<and> (\<forall>c \<in> set w'. \<not> isSpace c) \<and>
        (post = [] \<or> isSpace (hd post)))"

definition laterPiece :: "string \<Rightarrow> string \<Rightarrow> bool" where
  "laterPiece w s \<longleftrightarrow>
     (\<exists>pre post. s = pre @ w @ post \<and> pre \<noteq> [] \<and> isSpace (last pre) \<and>
        (\<forall>c \<in> set w. \<not> isSpace c) \<and> (post = [] \<or> isSpace (hd post)))"

text \<open>The specification's "matched": the keyword is a substring of a lowercased tag, or
  a lowercased tag is a substring of the keyword.\<close>

definition spec_matched :: "string list \<Rightarrow> string \<Rightarrow> bool" where
  "spec_matched expertise k \<longleftrightarrow>
     (\<exists>t \<in> set expertise. (\<exists>ps ss. toLowerCase t = ps @ k @ ss) \<or>
                           (\<exists>ps ss. k = ps @ toLowerCase t @ ss))"

section \<open>Outcomes, traces and reachable states\<close>

text \<open>An operation returns its value or the error it threw, and the database it leaves.\<close>

definition succeeded :: "(error + 'a) \<times> database \<Rightarrow> bool" where
  "succeeded r = (case fst r of Inl e \<Rightarrow> False | Inr v \<Rightarrow> True)"

text \<open>The status recorded for a project id and for a match id (\<open>None\<close>: no such row).\<close>

definition projectStatus :: "database \<Rightarrow> string \<Rightarrow> project_status option" where
  "projectStatus db projectId = map_option p_status (find (\<lambda>p. p_id p = projectId) (projects db))"

definition matchStatus :: "database \<Rightarrow> string \<Rightarrow> match_status option" where
  "matchStatus db matchId =
     map_option pm_status (find (\<lambda>pm. pm_id pm = matchId) (project_matches db))"

text \<open>The matches of a project that have a given status.\<close>

definition matchesWith :: "database \<Rightarrow> string \<Rightarrow> match_status \<Rightarrow> ProjectMatch list" where
  "matchesWith db projectId st =
     filter (\<lambda>pm. pm_project_id pm = projectId \<and> pm_status pm = st) (project_matches db)"

text \<open>The core operations with their arguments, and the database each one leaves,
  whether it returned or threw.\<close>

datatype operation =
    CreateProject string ProjectData string string string "nat \<Rightarrow> string"
  | UpdateProject string string ProjectPatch string
  | DeleteProject string string
  | SubmitProposal string string string real string
  | UpdateMatchStatus string string new_status string

fun exec :: "operation \<Rightarrow> database \<Rightarrow> database" where
  "exec (CreateProject smeId projectData projectId now now2 matchIds) db =
     snd (createProject db smeId projectData projectId now now2 matchIds)"
| "exec (UpdateProject projectId smeId projectData now) db =
     snd (updateProject db projectId smeId projectData now)"
| "exec (DeleteProject projectId smeId) db = snd (deleteProject db projectId smeId)"
| "exec (SubmitProposal matchId consultantId proposal price now) db =
     snd (submitProposal db matchId consultantId proposal price now)"
| "exec (UpdateMatchStatus matchId smeId status now) db =
     snd (updateMatchStatus db matchId smeId status now)"

text \<open>The states the core operations can reach from empty tables. The table of
  consultants belongs to another module and may hold anything at any time.\<close>

inductive reachable :: "database \<Rightarrow> bool" where
  initial: "reachable \<lparr>projects = [], project_matches = [], consultant_profiles = cs\<rparr>"
| step: "reachable db \<Longrightarrow> reachable (exec op db)"
| pool: "reachable db \<Longrightarrow> reachable (db\<lparr>consultant_profiles := cs\<rparr>)"

text \<open>The rule of the specification for accepting: the match is pending. An operation
  respects it when it is not an accept, or finds no match, or finds a pending one.\<close>

fun acceptsPendingOnly :: "operation \<Rightarrow> database \<Rightarrow> bool" where
  "acceptsPendingOnly (UpdateMatchStatus matchId smeId To_accepted now) db =
     (case ownedMatch db matchId smeId of
        None \<Rightarrow> True
      | Some existingMatch \<Rightarrow> pm_status existingMatch = Match_pending)"
| "acceptsPendingOnly op db = True"

inductive reachableGuarded :: "database \<Rightarrow> bool" where
  g_initial: "reachableGuarded \<lparr>projects = [], project_matches = [], consultant_profiles = cs\<rparr>"
| g_step: "reachableGuarded db \<Longrightarrow> acceptsPendingOnly op db \<Longrightarrow> reachableGuarded (exec op db)"
| g_pool: "reachableGuarded db \<Longrightarrow> reachableGuarded (db\<lparr>consultant_profiles := cs\<rparr>)"

section \<open>The effects of the operations in closed form\<close>

text \<open>What a successful \<^verbatim>\<open>submitProposal\<close> writes into the row.\<close>

definition withProposal :: "string \<Rightarrow> real \<Rightarrow> string \<Rightarrow> ProjectMatch \<Rightarrow> ProjectMatch" where
  "withProposal proposal price now pm =
     pm\<lparr>pm_proposal := Some proposal, pm_price := Some price, pm_updated_at := now\<rparr>"

text \<open>The effect of the \<^verbatim>\<open>UPDATE\<close>s of \<^verbatim>\<open>updateMatchStatus\<close> taken together, on a
  row of \<^verbatim>\<open>project_matches\<close> and on a row of \<^verbatim>\<open>projects\<close>; \<open>projectId\<close> is the project of
  the match found.\<close>

definition afterStatus :: "string \<Rightarrow> string \<Rightarrow> new_status \<Rightarrow> string \<Rightarrow> ProjectMatch \<Rightarrow> ProjectMatch" where
  "afterStatus matchId projectId status now pm =
     (if pm_id pm = matchId then pm\<lparr>pm_status := status_of status, pm_updated_at := now\<rparr>
      else if status = To_accepted \<and> pm_project_id pm = projectId \<and> pm_status pm = Match_pending
      then pm\<lparr>pm_status := Match_rejected, pm_updated_at := now\<rparr>
      else pm)"

definition cascade :: "string \<Rightarrow> new_status \<Rightarrow> string \<Rightarrow> Project \<Rightarrow> Project" where
  "cascade projectId status now p =
     (if p_id p = projectId \<and> status = To_accepted
      then p\<lparr>p_status := Status_in_progress, p_updated_at := now\<rparr>
      else if p_id p = projectId \<and> status = To_completed
      then p\<lparr>p_status := Status_completed, p_updated_at := now\<rparr>
      else p)"

text \<open>
  The ways a core operation writes the status of the project \<open>projectId\<close>: the result is
  \<open>None\<close> when the operation leaves that status as it is, and otherwise the status (or
  the absence of the project) it leaves. \<open>updateMatchStatus\<close> writes through its cascade
  (accepted gives in progress, completed gives completed) on the project of the match,
  \<open>updateProject\<close> of the owner writes the status field of its argument when it has one,
  \<open>createProject\<close> adds the project as open, \<open>deleteProject\<close> of the owner removes it.
\<close>

fun statusWritten :: "operation \<Rightarrow> database \<Rightarrow> string \<Rightarrow> project_status option option" where
  "statusWritten (UpdateMatchStatus matchId smeId status now) db projectId =
     (case ownedMatch db matchId smeId of
        None \<Rightarrow> None
      | Some existingMatch \<Rightarrow>
          if pm_project_id existingMatch = projectId
          then (case status of
                  To_accepted \<Rightarrow> Some (Some Status_in_progress)
                | To_completed \<Rightarrow> Some (Some Status_completed)
                | To_rejected \<Rightarrow> None)
          else None)"
| "statusWritten (UpdateProject pid smeId projectData now) db projectId =
     (if pid = projectId \<and> (\<exists>p \<in> set (projects db). p_id p = pid \<and> p_sme_id p = smeId)
      then map_option Some (new_status projectData) else None)"
| "statusWritten (CreateProject smeId projectData pid now now2 matchIds) db projectId =
     (if pid = projectId \<and> projectStatus db projectId = None then Some (Some Status_open)
      else None)"
| "statusWritten (DeleteProject pid smeId) db projectId =
     (if pid = projectId \<and> (\<exists>p \<in> set (projects db). p_id p = pid \<and> p_sme_id p = smeId)
      then Some None else None)"
| "statusWritten (SubmitProposal matchId consultantId proposal price now) db projectId = None"

text \<open>The specification's combined score of a consultant for a keyword set:
  0.6 times the expertise score plus 0.4 times the experience score.\<close>

definition spec_combined :: "ConsultantProfile \<Rightarrow> string list \<Rightarrow> real" where
  "spec_combined c projectKeywords =
     0.6 * calculateExpertiseMatch (c_expertise c) projectKeywords +
     0.4 * calculateExperienceScore (c_experience_years c)"

text \<open>The combined score as the scoring loop computes it, in double arithmetic.\<close>

definition computedScore :: "ConsultantProfile \<Rightarrow> string list \<Rightarrow> real" where
  "computedScore c projectKeywords =
     dadd (dmul (toDouble (calculateExpertiseMatch (c_expertise c) projectKeywords))
                (toDouble 0.6))
          (dmul (toDouble (calculateExperienceScore (c_experience_years c)))
                (toDouble 0.4))"

text \<open>The entry of a consultant that passes the threshold, and the row persisted for
  an entry.\<close>

definition scored :: "string list \<Rightarrow> ConsultantProfile \<Rightarrow> ScoredMatch" where
  "scored projectKeywords c =
     \<lparr>consultant_id = c_id c,
      match_score = ddiv (Math_round (dmul (computedScore c projectKeywords) 100)) 100\<rparr>"

definition matchRow :: "string \<Rightarrow> string \<Rightarrow> string \<Rightarrow> ScoredMatch \<Rightarrow> ProjectMatch" where
  "matchRow projectId now matchId m =
     \<lparr>pm_id = matchId, pm_project_id = projectId, pm_consultant_id = consultant_id m,
      pm_match_score = match_score m, pm_status = Match_pending, pm_proposal = None,
      pm_price = None, pm_created_at = now, pm_updated_at = now\<rparr>"

text \<open>The rows of \<^verbatim>\<open>project_matches\<close> that are in \<open>db'\<close> after those of \<open>db\<close>.\<close>

definition newRows :: "database \<Rightarrow> database \<Rightarrow> ProjectMatch list" where
  "newRows db db' = drop (length (project_matches db)) (project_matches db')"

section \<open>Invariants\<close>

text \<open>What the schema's keys give: match ids are distinct (primary key) and every
  match refers to a project in the table (foreign key).\<close>

definition wellFormed :: "database \<Rightarrow> bool" where
  "wellFormed db \<longleftrightarrow>
     distinct (map pm_id (project_matches db)) \<and>
     (\<forall>pm \<in> set (project_matches db). pm_project_id pm \<in> p_id ` set (projects db))"

text \<open>At most one accepted match per project, and no pending match beside an accepted
  one.\<close>

definition singleAccept :: "database \<Rightarrow> bool" where
  "singleAccept db \<longleftrightarrow>
     (\<forall>projectId. length (matchesWith db projectId Match_accepted) \<le> 1 \<and>
        (matchesWith db projectId Match_accepted \<noteq> [] \<longrightarrow>
           matchesWith db projectId Match_pending = []))"

section \<open>A small run\<close>

text \<open>Three consultants, of whom the third stays below the threshold; one project
  with no word longer than three letters; the two matches that its creation generates;
  then the first match accepted, then the second.\<close>

definition pool0 :: "ConsultantProfile list" where
  "pool0 = [\<lparr>c_id = ''c1'', c_expertise = [''Carbon''], c_experience_years = 10\<rparr>,
            \<lparr>c_id = ''c2'', c_expertise = [], c_experience_years = 20\<rparr>,
            \<lparr>c_id = ''c3'', c_expertise = [], c_experience_years = 2\<rparr>]"

definition db0 :: database where
  "db0 = \<lparr>projects = [], project_matches = [], consultant_profiles = pool0\<rparr>"

definition ids0 :: "nat \<Rightarrow> string" where
  "ids0 i = (if i = 0 then ''m0'' else if i = 1 then ''m1'' else ''m2'')"

definition opCreate :: operation where
  "opCreate = CreateProject ''s1''
     \<lparr>title = ''a'', description = ''b'', requirements = ''c'', budget = None, deadline = None\<rparr>
     ''p1'' ''t0'' ''t0'' ids0"

definition db1 :: database where
  "db1 = exec opCreate db0"

definition db2 :: database where
  "db2 = exec (UpdateMatchStatus ''m0'' ''s1'' To_accepted ''t1'') db1"

definition db3 :: database where
  "db3 = exec (UpdateMatchStatus ''m1'' ''s1'' To_accepted ''t2'') db2"

definition patchCancel :: ProjectPatch where
  "patchCancel = \<lparr>new_title = None, new_description = None, new_requirements = None,
     new_budget = None, new_deadline = None, new_status = Some Status_cancelled\<rparr>"

text \<open>The project row that \<open>opCreate\<close> inserts.\<close>

definition project1 :: Project where
  "project1 = \<lparr>p_id = ''p1'', p_sme_id = ''s1'', p_title = ''a'', p_description = ''b'',
     p_requirements = ''c'', p_budget = None, p_deadline = None, p_status = Status_open,
     p_created_at = ''t0'', p_updated_at = ''t0''\<rparr>"

text \<open>A project with eight keywords, already in its table, and three consultants. The
  first matches four keywords and has one year of experience: \<^verbatim>\<open>0.5 * 0.6 + 0.5 * 0.4\<close> is
  \<^verbatim>\<open>0.5\<close>. The second matches three and has five years: \<^verbatim>\<open>0.375 * 0.6 + 0.7 * 0.4\<close> is
  \<^verbatim>\<open>0.5049999999999999\<close> in doubles and is stored as \<^verbatim>\<open>0.5\<close>. The third matches nothing and
  has no experience.\<close>

definition project8 :: Project where
  "project8 = \<lparr>p_id = ''p8'', p_sme_id = ''s1'',
     p_title = ''Carbon footprint energy audit waste water solar wind'',
     p_description = ''x'', p_requirements = ''y'', p_budget = None, p_deadline = None,
     p_status = Status_open, p_created_at = ''t0'', p_updated_at = ''t0''\<rparr>"

definition pool8 :: "ConsultantProfile list" where
  "pool8 = [\<lparr>c_id = ''B'', c_expertise = [''Carbon'', ''Energy'', ''Waste'', ''Solar''],
              c_experience_years = 1\<rparr>,
            \<lparr>c_id = ''A'', c_expertise = [''Carbon'', ''Energy'', ''Waste''],
              c_experience_years = 5\<rparr>,
            \<lparr>c_id = ''C'', c_expertise = [''Biodiversity''], c_experience_years = 0\<rparr>]"


section \<open>Double arithmetic at known values\<close>

text \<open>The rounding at values whose doubles are well known: \<^verbatim>\<open>0.1 + 0.2\<close> is
  \<^verbatim>\<open>0.30000000000000004\<close> and not the double \<^verbatim>\<open>0.3\<close>, \<^verbatim>\<open>0.7 * 0.4\<close> is
  \<^verbatim>\<open>0.27999999999999997\<close>, and a number with a short binary expansion is kept.\<close>

lemma toDouble_examples:
  "toDouble 0.3 = 5404319552844595 / 2 ^ 54 \<and>
   dadd (toDouble 0.1) (toDouble 0.2) = 5404319552844596 / 2 ^ 54 \<and>
   dmul (toDouble 0.7) (toDouble 0.4) = 5044031582654955 / 2 ^ 54 \<and>
   toDouble 0.375 = 0.375 \<and> toDouble 100 = 100 \<and> toDouble 0 = 0"
  by code_simp

section \<open>The small run, evaluated\<close>

text \<open>The states of the run are computed once; later evaluations start from these
  values. The scores \<^verbatim>\<open>0.4\<close> and \<^verbatim>\<open>0.36\<close> appear as the doubles they are.\<close>

lemma db1_value:
  "db1 = \<lparr>projects = [project1],
          project_matches =
            [\<lparr>pm_id = ''m0'', pm_project_id = ''p1'', pm_consultant_id = ''c2'',
              pm_match_score = 3602879701896397 / 9007199254740992,
              pm_status = Match_pending, pm_proposal = None, pm_price = None,
              pm_created_at = ''t0'', pm_updated_at = ''t0''\<rparr>,
             \<lparr>pm_id = ''m1'', pm_project_id = ''p1'', pm_consultant_id = ''c1'',
              pm_match_score = 3242591731706757 / 9007199254740992,
              pm_status = Match_pending, pm_proposal = None, pm_price = None,
              pm_created_at = ''t0'', pm_updated_at = ''t0''\<rparr>],
          consultant_profiles = pool0\<rparr>"
  by code_simp

declare db1_value [code]

lemma db2_value:
  "db2 = \<lparr>projects = [project1\<lparr>p_status := Status_in_progress, p_updated_at := ''t1''\<rparr>],
          project_matches =
            [\<lparr>pm_id = ''m0'', pm_project_id = ''p1'', pm_consultant_id = ''c2'',
              pm_match_score = 3602879701896397 / 9007199254740992,
              pm_status = Match_accepted, pm_proposal = None, pm_price = None,
              pm_created_at = ''t0'', pm_updated_at = ''t1''\<rparr>,
             \<lparr>pm_id = ''m1'', pm_project_id = ''p1'', pm_consultant_id = ''c1'',
              pm_match_score = 3242591731706757 / 9007199254740992,
              pm_status = Match_rejected, pm_proposal = None, pm_price = None,
              pm_created_at = ''t0'', pm_updated_at = ''t1''\<rparr>],
          consultant_profiles = pool0\<rparr>"
  by code_simp

declare db2_value [code]

lemma db3_value:
  "db3 = \<lparr>projects = [project1\<lparr>p_status := Status_in_progress, p_updated_at := ''t2''\<rparr>],
          project_matches =
            [\<lparr>pm_id = ''m0'', pm_project_id = ''p1'', pm_consultant_id = ''c2'',
              pm_match_score = 3602879701896397 / 9007199254740992,
              pm_status = Match_accepted, pm_proposal = None, pm_price = None,
              pm_created_at = ''t0'', pm_updated_at = ''t1''\<rparr>,
             \<lparr>pm_id = ''m1'', pm_project_id = ''p1'', pm_consultant_id = ''c1'',
              pm_match_score = 3242591731706757 / 9007199254740992,
              pm_status = Match_accepted, pm_proposal = None, pm_price = None,
              pm_created_at = ''t0'', pm_updated_at = ''t2''\<rparr>],
          consultant_profiles = pool0\<rparr>"
  by code_simp

declare db3_value [code]


section \<open>Properties of the string helpers\<close>

lemma startsWith_iff: "startsWith s n \<longleftrightarrow> (\<exists>ss. s = n @ ss)"
  by (induction s n rule: startsWith.induct) auto

lemma includesStr_iff: "includesStr s n \<longleftrightarrow> (\<exists>ps ss. s = ps @ n @ ss)"
proof (induction s)
  case Nil
  then show ?case by auto
next
  case (Cons c cs)
  show ?case
  proof
    assume "includesStr (c # cs) n"
    then consider "startsWith (c # cs) n" | "includesStr cs n" by auto
    then show "\<exists>ps ss. c # cs = ps @ n @ ss"
    proof cases
      case 1
      then obtain ss where "c # cs = n @ ss" by (auto simp: startsWith_iff)
      then have "c # cs = [] @ n @ ss" by simp
      then show ?thesis by blast
    next
      case 2
      then obtain ps ss where "cs = ps @ n @ ss" using Cons.IH by auto
      then have "c # cs = (c # ps) @ n @ ss" by simp
      then show ?thesis by blast
    qed
  next
    assume "\<exists>ps ss. c # cs = ps @ n @ ss"
    then obtain ps ss where eq: "c # cs = ps @ n @ ss" by blast
    show "includesStr (c # cs) n"
    proof (cases ps)
      case Nil
      with eq have "startsWith (c # cs) n" by (auto simp: startsWith_iff)
      then show ?thesis by simp
    next
      case (Cons p ps')
      with eq have "cs = ps' @ n @ ss" by simp
      then have "includesStr cs n" using Cons.IH by blast
      then show ?thesis by simp
    qed
  qed
qed

lemma toLowerCaseChar_not_upper: "\<not> isUpperCase (toLowerCaseChar c)"
  unfolding toLowerCaseChar_def isUpperCase_def Let_def
  by auto

lemma newSet_distinct: "distinct seen \<Longrightarrow> distinct (newSet seen ws)"
  by (induction ws arbitrary: seen) auto

lemma newSet_set: "set (newSet seen ws) = set seen \<union> set ws"
  by (induction ws arbitrary: seen) auto

subsection \<open>What the splitting loop returns\<close>

lemma headPiece_Nil: "headPiece cur w [] \<longleftrightarrow> w = cur"
  by (auto simp: headPiece_def)

lemma laterPiece_Nil: "\<not> laterPiece w []"
  by (auto simp: laterPiece_def)

lemma headPiece_space: "isSpace c \<Longrightarrow> headPiece cur w (c # cs) \<longleftrightarrow> w = cur"
  unfolding headPiece_def by (auto simp: Cons_eq_append_conv)

lemma headPiece_nonspace:
  "\<not> isSpace c \<Longrightarrow> headPiece cur w (c # cs) \<longleftrightarrow> headPiece (cur @ [c]) w cs"
  unfolding headPiece_def by (auto simp: Cons_eq_append_conv)

lemma laterPiece_space:
  assumes "isSpace c" and "w \<noteq> []"
  shows "laterPiece w (c # cs) \<longleftrightarrow> headPiece [] w cs \<or> laterPiece w cs"
proof
  assume "laterPiece w (c # cs)"
  then obtain pre post where h: "c # cs = pre @ w @ post" "pre \<noteq> []" "isSpace (last pre)"
    "\<forall>c \<in> set w. \<not> isSpace c" "post = [] \<or> isSpace (hd post)"
    unfolding laterPiece_def by blast
  from h(1,2) obtain pre' where pre: "pre = c # pre'" "cs = pre' @ w @ post"
    by (cases pre) auto
  show "headPiece [] w cs \<or> laterPiece w cs"
  proof (cases "pre' = []")
    case True
    with pre h have "headPiece [] w cs" unfolding headPiece_def by auto
    then show ?thesis ..
  next
    case False
    with pre h have "isSpace (last pre')" by simp
    with False pre h have "laterPiece w cs" unfolding laterPiece_def by blast
    then show ?thesis ..
  qed
next
  assume "headPiece [] w cs \<or> laterPiece w cs"
  then show "laterPiece w (c # cs)"
  proof
    assume "headPiece [] w cs"
    then obtain post where "cs = w @ post" "\<forall>c \<in> set w. \<not> isSpace c"
      "post = [] \<or> isSpace (hd post)"
      unfolding headPiece_def by auto
    with assms have "c # cs = [c] @ w @ post \<and> [c] \<noteq> [] \<and> isSpace (last [c]) \<and>
      (\<forall>c \<in> set w. \<not> isSpace c) \<and> (post = [] \<or> isSpace (hd post))" by simp
    then show ?thesis unfolding laterPiece_def by blast
  next
    assume "laterPiece w cs"
    then obtain pre post where "cs = pre @ w @ post" "pre \<noteq> []" "isSpace (last pre)"
      "\<forall>c \<in> set w. \<not> isSpace c" "post = [] \<or> isSpace (hd post)"
      unfolding laterPiece_def by blast
    then have "c # cs = (c # pre) @ w @ post \<and> c # pre \<noteq> [] \<and> isSpace (last (c # pre)) \<and>
      (\<forall>c \<in> set w. \<not> isSpace c) \<and> (post = [] \<or> isSpace (hd post))" by simp
    then show ?thesis unfolding laterPiece_def by blast
  qed
qed

lemma laterPiece_nonspace:
  assumes "\<not> isSpace c"
  shows "laterPiece w (c # cs) \<longleftrightarrow> laterPiece w cs"
proof
  assume "laterPiece w (c # cs)"
  then obtain pre post where h: "c # cs = pre @ w @ post" "pre \<noteq> []" "isSpace (last pre)"
    "\<forall>c \<in> set w. \<not> isSpace c" "post = [] \<or> isSpace (hd post)"
    unfolding laterPiece_def by blast
  from h(1,2) obtain pre' where pre: "pre = c # pre'" "cs = pre' @ w @ post"
    by (cases pre) auto
  with h(3) assms have "pre' \<noteq> []" by auto
  with pre h have "isSpace (last pre')" by simp
  with \<open>pre' \<noteq> []\<close> pre h show "laterPiece w cs" unfolding laterPiece_def by blast
next
  assume "laterPiece w cs"
  then obtain pre post where "cs = pre @ w @ post" "pre \<noteq> []" "isSpace (last pre)"
    "\<forall>c \<in> set w. \<not> isSpace c" "post = [] \<or> isSpace (hd post)"
    unfolding laterPiece_def by blast
  then have "c # cs = (c # pre) @ w @ post \<and> c # pre \<noteq> [] \<and> isSpace (last (c # pre)) \<and>
    (\<forall>c \<in> set w. \<not> isSpace c) \<and> (post = [] \<or> isSpace (hd post))" by simp
  then show "laterPiece w (c # cs)" unfolding laterPiece_def by blast
qed

lemma splitLoop_pieces:
  "(inRun \<longrightarrow> cur = []) \<Longrightarrow> w \<noteq> [] \<Longrightarrow>
   w \<in> set (splitLoop cur inRun s) \<longleftrightarrow> headPiece cur w s \<or> laterPiece w s"
proof (induction cur inRun s rule: splitLoop.induct)
  case (1 cur inRun)
  then show ?case by (simp add: headPiece_Nil laterPiece_Nil)
next
  case (2 cur inRun c cs)
  show ?case
  proof (cases "isSpace c")
    case True
    then show ?thesis using 2
      by (auto simp: headPiece_space laterPiece_space)
  next
    case False
    then show ?thesis using 2
      by (simp add: headPiece_nonspace laterPiece_nonspace)
  qed
qed

lemma spec_token_pieces: "spec_token w s \<longleftrightarrow> headPiece [] w s \<or> laterPiece w s"
proof
  assume "spec_token w s"
  then obtain pre post where h: "s = pre @ w @ post" "\<forall>c \<in> set w. \<not> isSpace c"
    "pre = [] \<or> isSpace (last pre)" "post = [] \<or> isSpace (hd post)"
    unfolding spec_token_def by blast
  show "headPiece [] w s \<or> laterPiece w s"
  proof (cases "pre = []")
    case True
    with h have "headPiece [] w s" unfolding headPiece_def by auto
    then show ?thesis ..
  next
    case False
    with h have "laterPiece w s" unfolding laterPiece_def by blast
    then show ?thesis ..
  qed
next
  assume "headPiece [] w s \<or> laterPiece w s"
  then show "spec_token w s"
  proof
    assume "headPiece [] w s"
    then obtain post where "s = [] @ w @ post" "\<forall>c \<in> set w. \<not> isSpace c"
      "post = [] \<or> isSpace (hd post)"
      unfolding headPiece_def by auto
    then show ?thesis unfolding spec_token_def by blast
  next
    assume "laterPiece w s"
    then show ?thesis unfolding spec_token_def laterPiece_def by blast
  qed
qed

lemma splitWhitespace_tokens:
  "w \<noteq> [] \<Longrightarrow> w \<in> set (splitWhitespace s) \<longleftrightarrow> spec_token w s"
  by (simp add: splitWhitespace_def splitLoop_pieces spec_token_pieces)

lemma spec_token_chars: "spec_token w s \<Longrightarrow> c \<in> set w \<Longrightarrow> c \<in> set s \<and> \<not> isSpace c"
  unfolding spec_token_def by auto

lemma extractKeywords_set:
  "set (extractKeywords text) =
     {w. length w > 3 \<and> spec_token w (stripNonWord (toLowerCase text))}"
proof -
  have "w \<in> set (splitWhitespace s) \<longleftrightarrow> spec_token w s" if "length w > 3" for w s
  proof -
    from that have "w \<noteq> []" by auto
    then show ?thesis by (rule splitWhitespace_tokens)
  qed
  then have "{w \<in> set (splitWhitespace s). length w > 3} = {w. length w > 3 \<and> spec_token w s}"
    for s by blast
  moreover have "set (extractKeywords text) =
      {w \<in> set (splitWhitespace (stripNonWord (toLowerCase text))). length w > 3}"
    by (simp add: extractKeywords_def newSet_set)
  ultimately show ?thesis by simp
qed

lemma keyword_chars:
  assumes "w \<in> set (extractKeywords text)" and "c \<in> set w"
  shows "isWordChar c \<and> \<not> isUpperCase c"
proof -
  from assms(1) have "spec_token w (stripNonWord (toLowerCase text))"
    by (simp add: extractKeywords_set)
  with assms(2) have c: "c \<in> set (stripNonWord (toLowerCase text))" "\<not> isSpace c"
    using spec_token_chars by blast+
  then have "isWordChar c" by (auto simp: stripNonWord_def)
  moreover from c have "\<not> isUpperCase c"
    by (auto simp: stripNonWord_def toLowerCase_def toLowerCaseChar_not_upper)
  ultimately show ?thesis ..
qed

section \<open>The keyword extractor\<close>

text \<open>
  Claim C6. For every input text, \<open>extractKeywords\<close> returns a list without duplicates;
  every token has at least 4 characters, all of them word characters and none an upper-case
  letter; the tokens are exactly the pieces longer than 3 that lie between whitespace runs
  of the lowercased text stripped of the characters that are neither word characters nor
  whitespace; and the empty text yields no token. The function reads nothing but its
  argument, so it is pure.
\<close>

theorem extractKeywords_tokens:
  "distinct (extractKeywords text) \<and>
   (\<forall>w \<in> set (extractKeywords text).
      length w \<ge> 4 \<and> (\<forall>c \<in> set w. isWordChar c \<and> \<not> isUpperCase c)) \<and>
   set (extractKeywords text) =
     {w. length w > 3 \<and> spec_token w (stripNonWord (toLowerCase text))} \<and>
   extractKeywords text =
     newSet [] (filter (\<lambda>word. length word > 3)
                  (splitWhitespace (stripNonWord (toLowerCase text)))) \<and>
   extractKeywords [] = []"
proof (intro conjI)
  show "distinct (extractKeywords text)"
    by (simp add: extractKeywords_def newSet_distinct)
  show "\<forall>w \<in> set (extractKeywords text).
      length w \<ge> 4 \<and> (\<forall>c \<in> set w. isWordChar c \<and> \<not> isUpperCase c)"
  proof
    fix w assume w: "w \<in> set (extractKeywords text)"
    then have "length w \<ge> 4" by (simp add: extractKeywords_set)
    with w show "length w \<ge> 4 \<and> (\<forall>c \<in> set w. isWordChar c \<and> \<not> isUpperCase c)"
      using keyword_chars by blast
  qed
  show "set (extractKeywords text) =
     {w. length w > 3 \<and> spec_token w (stripNonWord (toLowerCase text))}"
    by (rule extractKeywords_set)
  show "extractKeywords text =
     newSet [] (filter (\<lambda>word. length word > 3)
                  (splitWhitespace (stripNonWord (toLowerCase text))))"
    by (simp add: extractKeywords_def)
  show "extractKeywords [] = []"
    by (simp add: extractKeywords_def splitWhitespace_def stripNonWord_def toLowerCase_def)
qed

theorem extractKeywords_tokens_witness:
  "extractKeywords ''Net-Zero plan, for the PLAN'' = [''netzero'', ''plan''] \<and>
   distinct [''netzero'', ''plan''] \<and>
   length ''plan'' \<ge> 4 \<and> isWordChar CHR ''p'' \<and> \<not> isUpperCase CHR ''p'' \<and>
   spec_token ''plan'' (stripNonWord (toLowerCase ''Net-Zero plan, for the PLAN''))"
proof -
  have e: "extractKeywords ''Net-Zero plan, for the PLAN'' = [''netzero'', ''plan'']"
    by code_simp
  note t = extractKeywords_tokens [of "''Net-Zero plan, for the PLAN''", unfolded e]
  have plan: "''plan'' \<in> set [''netzero'', ''plan'']" and p: "CHR ''p'' \<in> set ''plan''"
    by simp_all
  from t have d: "distinct [''netzero'', ''plan'']" by (rule conjunct1)
  from t have "\<forall>w \<in> set [''netzero'', ''plan'']. length w \<ge> 4 \<and>
      (\<forall>c \<in> set w. isWordChar c \<and> \<not> isUpperCase c)" by blast
  with plan p have c: "length ''plan'' \<ge> 4 \<and> isWordChar CHR ''p'' \<and> \<not> isUpperCase CHR ''p''"
    by blast
  from t have "set [''netzero'', ''plan''] =
     {w. length w > 3 \<and> spec_token w (stripNonWord (toLowerCase ''Net-Zero plan, for the PLAN''))}"
    by blast
  with plan have "spec_token ''plan'' (stripNonWord (toLowerCase ''Net-Zero plan, for the PLAN''))"
    by blast
  with e d c show ?thesis by blast
qed

section \<open>The expertise matcher\<close>

lemma keywordMatches_iff:
  "keywordMatches tags k \<longleftrightarrow> (\<exists>t \<in> set tags. includesStr t k \<or> includesStr k t)"
  by (induction tags) auto

lemma keywordMatches_spec:
  "keywordMatches (map toLowerCase expertise) k \<longleftrightarrow> spec_matched expertise k"
  by (simp add: keywordMatches_iff spec_matched_def includesStr_iff)

lemma countMatches_eq:
  "countMatches tags ks acc = acc + length (filter (keywordMatches tags) ks)"
  by (induction ks arbitrary: acc) auto

text \<open>
  Claim C7. For every list of expertise tags and every list of keywords,
  \<open>calculateExpertiseMatch\<close> is the number of matched keywords divided by the number of
  keywords, a keyword being matched when it is a substring of some lowercased tag or some
  lowercased tag is a substring of it, and counted once however many tags match it; for
  no keywords the result is 0.
\<close>

theorem calculateExpertiseMatch_ratio:
  "calculateExpertiseMatch expertise projectKeywords =
     (if projectKeywords = [] then 0
      else real (length (filter (spec_matched expertise) projectKeywords))
           / real (length projectKeywords)) \<and>
   calculateExpertiseMatch expertise [] = 0"
proof -
  have "keywordMatches (map toLowerCase expertise) = spec_matched expertise"
    by (rule ext) (simp add: keywordMatches_spec)
  then show ?thesis
    by (simp add: calculateExpertiseMatch_def countMatches_eq)
qed

theorem calculateExpertiseMatch_ratio_witness:
  "calculateExpertiseMatch [''Carbon Footprint Analysis'', ''Footprint'']
     [''carbon'', ''footprint'', ''manufacturing''] = 2 / 3 \<and>
   length (filter (spec_matched [''Carbon Footprint Analysis'', ''Footprint''])
     [''carbon'', ''footprint'', ''manufacturing'']) = 2"
proof -
  have e: "calculateExpertiseMatch [''Carbon Footprint Analysis'', ''Footprint'']
     [''carbon'', ''footprint'', ''manufacturing''] = 2 / 3"
    by code_simp
  show ?thesis
    using calculateExpertiseMatch_ratio [of "[''Carbon Footprint Analysis'', ''Footprint'']"
        "[''carbon'', ''footprint'', ''manufacturing'']"]
    unfolding e by simp
qed

section \<open>The experience scorer\<close>

text \<open>
  Claim C8. \<open>calculateExperienceScore\<close> does not decrease when the years grow, its value
  lies between 0.3 and 1.0, it is 0.3 at 0 years and 1.0 at 20 years, and it follows the
  step table: 1.0 from 15 years, 0.9 for 10 to 14, 0.8 for 7 to 9, 0.7 for 5 and 6, 0.6
  for 3 and 4, 0.5 for 1 and 2.
\<close>

theorem calculateExperienceScore_steps:
  "(x \<le> y \<longrightarrow> calculateExperienceScore x \<le> calculateExperienceScore y) \<and>
   0.3 \<le> calculateExperienceScore n \<and> calculateExperienceScore n \<le> 1.0 \<and>
   calculateExperienceScore 0 = 0.3 \<and> calculateExperienceScore 20 = 1.0 \<and>
   (15 \<le> a \<longrightarrow> calculateExperienceScore a = 1.0) \<and>
   (10 \<le> b \<and> b \<le> 14 \<longrightarrow> calculateExperienceScore b = 0.9) \<and>
   (7 \<le> c \<and> c \<le> 9 \<longrightarrow> calculateExperienceScore c = 0.8) \<and>
   (5 \<le> d \<and> d \<le> 6 \<longrightarrow> calculateExperienceScore d = 0.7) \<and>
   (3 \<le> e \<and> e \<le> 4 \<longrightarrow> calculateExperienceScore e = 0.6) \<and>
   (1 \<le> g \<and> g \<le> 2 \<longrightarrow> calculateExperienceScore g = 0.5)"
  by (simp add: calculateExperienceScore_def)

theorem calculateExperienceScore_steps_witness:
  "(3::int) \<le> 12 \<and> calculateExperienceScore 3 \<le> calculateExperienceScore 12 \<and>
   calculateExperienceScore 16 = 1.0 \<and> calculateExperienceScore 14 = 0.9 \<and>
   calculateExperienceScore 7 = 0.8 \<and> calculateExperienceScore 6 = 0.7 \<and>
   calculateExperienceScore 3 = 0.6 \<and> calculateExperienceScore 1 = 0.5"
  using calculateExperienceScore_steps [of 3 12 0 16 14 7 6 3 1] by simp

section \<open>Submitting a proposal\<close>

lemma find_SomeD: "find P xs = Some x \<Longrightarrow> P x \<and> x \<in> set xs"
  by (induction xs) (auto split: if_splits)

lemma find_None_conv: "find P xs = None \<longleftrightarrow> (\<forall>x \<in> set xs. \<not> P x)"
  by (induction xs) auto

lemma find_map_keep:
  "(\<And>x. P (f x) = P x) \<Longrightarrow> find P (map f xs) = map_option f (find P xs)"
  by (induction xs) auto

lemma key_unique:
  "distinct (map k xs) \<Longrightarrow> x \<in> set xs \<Longrightarrow> y \<in> set xs \<Longrightarrow> k x = k y \<Longrightarrow> x = y"
  by (meson distinct_map inj_on_def)

lemma find_key:
  "distinct (map k xs) \<Longrightarrow> x \<in> set xs \<Longrightarrow> find (\<lambda>y. k y = k x) xs = Some x"
  by (induction xs) (auto simp: rev_image_eqI)

lemma find_weaken:
  assumes "find P xs = Some x" and "\<And>y. P y \<Longrightarrow> Q y"
  shows "\<exists>u. find Q xs = Some u"
proof -
  from assms(1) have "P x \<and> x \<in> set xs" by (rule find_SomeD)
  with assms(2) have "\<exists>y \<in> set xs. Q y" by blast
  then have "find Q xs \<noteq> None" by (simp add: find_None_conv)
  then show ?thesis by auto
qed

lemma find_update_key:
  "(\<And>y. k (g y) = k y) \<Longrightarrow>
   find (\<lambda>y. k y = key) (map (\<lambda>y. if k y = key then g y else y) xs) =
     map_option g (find (\<lambda>y. k y = key) xs)"
  by (induction xs) auto

lemma submitProposal_fail:
  assumes "\<not> succeeded (submitProposal db matchId consultantId proposal price now)"
  shows "snd (submitProposal db matchId consultantId proposal price now) = db"
proof (cases "find (\<lambda>pm. pm_id pm = matchId \<and> pm_consultant_id pm = consultantId)
                (project_matches db)")
  case None
  then show ?thesis by (simp add: submitProposal_def)
next
  case (Some m)
  then obtain u where "find (\<lambda>pm. pm_id pm = matchId) (project_matches db) = Some u"
    using find_weaken [OF Some, of "\<lambda>pm. pm_id pm = matchId"] by auto
  with Some assms show ?thesis
    by (auto simp: submitProposal_def succeeded_def Let_def find_update_key)
qed

lemma submitProposal_succeeds_iff:
  assumes "distinct (map pm_id (project_matches db))"
  shows "succeeded (submitProposal db matchId consultantId proposal price now) \<longleftrightarrow>
     (\<exists>pm \<in> set (project_matches db). pm_id pm = matchId \<and> pm_consultant_id pm = consultantId \<and>
        pm_status pm = Match_pending)"
proof -
  let ?P = "\<lambda>pm. pm_id pm = matchId \<and> pm_consultant_id pm = consultantId"
  let ?f = "\<lambda>pm. if pm_id pm = matchId
                  then pm\<lparr>pm_proposal := Some proposal, pm_price := Some price, pm_updated_at := now\<rparr>
                  else pm"
  show ?thesis
  proof (cases "find ?P (project_matches db)")
    case None
    then have "\<not> succeeded (submitProposal db matchId consultantId proposal price now)"
      by (simp add: submitProposal_def succeeded_def)
    moreover from None have "\<forall>pm \<in> set (project_matches db). \<not> ?P pm"
      by (simp add: find_None_conv)
    ultimately show ?thesis by blast
  next
    case (Some m)
    then have m: "m \<in> set (project_matches db)" "pm_id m = matchId" "pm_consultant_id m = consultantId"
      using find_SomeD [of ?P] by auto
    then have byid: "find (\<lambda>pm. pm_id pm = matchId) (project_matches db) = Some m"
      using find_key [OF assms, of m] by simp
    have uniq: "pm = m" if "pm \<in> set (project_matches db)" "pm_id pm = matchId" for pm
      using key_unique [OF assms that(1) m(1)] that(2) m(2) by simp
    show ?thesis
    proof (cases "pm_status m = Match_pending")
      case True
      with Some m byid show ?thesis
        by (auto simp: submitProposal_def succeeded_def Let_def find_update_key)
    next
      case False
      with Some uniq show ?thesis
        by (auto simp: submitProposal_def succeeded_def)
    qed
  qed
qed

lemma submitProposal_success:
  assumes "succeeded (submitProposal db matchId consultantId proposal price now)"
  shows "snd (submitProposal db matchId consultantId proposal price now) =
           db\<lparr>project_matches :=
                map (\<lambda>pm. if pm_id pm = matchId then withProposal proposal price now pm else pm)
                  (project_matches db)\<rparr>"
  using assms
  by (auto simp: submitProposal_def succeeded_def Let_def withProposal_def
      split: option.splits if_splits)

text \<open>
  Claim C9. In a database whose match ids are distinct (the primary key),
  \<open>submitProposal\<close> succeeds exactly when a match with the given id exists, belongs to the
  acting consultant and is pending. On success the row gets the proposal text and the
  price, the returned match is that row, still pending, and no row changes its status; on
  failure an error is returned and the database is unchanged.
\<close>

theorem submitProposal_outcome:
  assumes "distinct (map pm_id (project_matches db))"
  shows "(succeeded (submitProposal db matchId consultantId proposal price now) \<longleftrightarrow>
            (\<exists>pm \<in> set (project_matches db). pm_id pm = matchId \<and>
               pm_consultant_id pm = consultantId \<and> pm_status pm = Match_pending)) \<and>
         (succeeded (submitProposal db matchId consultantId proposal price now) \<longrightarrow>
            snd (submitProposal db matchId consultantId proposal price now) =
              db\<lparr>project_matches :=
                   map (\<lambda>pm. if pm_id pm = matchId then withProposal proposal price now pm
                              else pm)
                     (project_matches db)\<rparr> \<and>
            (\<exists>u. fst (submitProposal db matchId consultantId proposal price now) = Inr u \<and>
               pm_id u = matchId \<and> pm_proposal u = Some proposal \<and> pm_price u = Some price \<and>
               pm_status u = Match_pending) \<and>
            map pm_status (project_matches
                (snd (submitProposal db matchId consultantId proposal price now))) =
              map pm_status (project_matches db)) \<and>
         (\<not> succeeded (submitProposal db matchId consultantId proposal price now) \<longrightarrow>
            (\<exists>e. fst (submitProposal db matchId consultantId proposal price now) = Inl e) \<and>
            snd (submitProposal db matchId consultantId proposal price now) = db)"
proof (intro conjI impI)
  let ?r = "submitProposal db matchId consultantId proposal price now"
  show "succeeded ?r \<longleftrightarrow>
            (\<exists>pm \<in> set (project_matches db). pm_id pm = matchId \<and>
               pm_consultant_id pm = consultantId \<and> pm_status pm = Match_pending)"
    using assms by (rule submitProposal_succeeds_iff)
  show "snd ?r = db" if "\<not> succeeded ?r"
    using that by (rule submitProposal_fail)
  show "\<exists>e. fst ?r = Inl e" if "\<not> succeeded ?r"
    using that by (cases "fst ?r") (auto simp: succeeded_def)
  assume ok: "succeeded ?r"
  then show upd: "snd ?r = db\<lparr>project_matches :=
                   map (\<lambda>pm. if pm_id pm = matchId then withProposal proposal price now pm
                              else pm)
                     (project_matches db)\<rparr>"
    by (rule submitProposal_success)
  show "map pm_status (project_matches (snd ?r)) = map pm_status (project_matches db)"
    unfolding upd by (simp add: withProposal_def comp_def if_distrib cong: if_cong)
  from ok show "\<exists>u. fst ?r = Inr u \<and> pm_id u = matchId \<and> pm_proposal u = Some proposal \<and>
      pm_price u = Some price \<and> pm_status u = Match_pending"
    by (auto simp: submitProposal_def succeeded_def Let_def find_update_key
        split: option.splits if_splits dest!: find_SomeD dest: key_unique [OF assms])
qed

theorem submitProposal_outcome_witness:
  "distinct (map pm_id (project_matches db1)) \<and>
   succeeded (submitProposal db1 ''m0'' ''c2'' ''plan'' 100 ''t1'') \<and>
   map pm_status (project_matches (snd (submitProposal db1 ''m0'' ''c2'' ''plan'' 100 ''t1''))) =
     map pm_status (project_matches db1) \<and>
   \<not> succeeded (submitProposal db1 ''m0'' ''c1'' ''plan'' 100 ''t1'') \<and>
   snd (submitProposal db1 ''m0'' ''c1'' ''plan'' 100 ''t1'') = db1"
proof -
  have d: "distinct (map pm_id (project_matches db1))" by code_simp
  have s: "succeeded (submitProposal db1 ''m0'' ''c2'' ''plan'' 100 ''t1'')" by code_simp
  have f: "\<not> succeeded (submitProposal db1 ''m0'' ''c1'' ''plan'' 100 ''t1'')" by code_simp
  from submitProposal_outcome [OF d, of "''m0''" "''c2''" "''plan''" 100 "''t1''"] s
  have a: "map pm_status (project_matches (snd (submitProposal db1 ''m0'' ''c2'' ''plan'' 100 ''t1''))) =
     map pm_status (project_matches db1)" by blast
  from submitProposal_outcome [OF d, of "''m0''" "''c1''" "''plan''" 100 "''t1''"] f
  have b: "snd (submitProposal db1 ''m0'' ''c1'' ''plan'' 100 ''t1'') = db1" by blast
  from d s a f b show ?thesis by blast
qed

section \<open>Changing the status of a match\<close>

lemma afterStatus_id [simp]: "pm_id (afterStatus matchId projectId status now pm) = pm_id pm"
  by (simp add: afterStatus_def)

lemma afterStatus_project [simp]:
  "pm_project_id (afterStatus matchId projectId status now pm) = pm_project_id pm"
  by (simp add: afterStatus_def)

lemma cascade_id [simp]: "p_id (cascade projectId status now p) = p_id p"
  by (simp add: cascade_def)

lemma cascade_rejected [simp]: "map (cascade projectId To_rejected now) ps = ps"
  by (induction ps) (simp_all add: cascade_def)

lemma updateMatchStatus_none:
  "ownedMatch db matchId smeId = None \<Longrightarrow>
   updateMatchStatus db matchId smeId status now = (Inl Match_not_found_or_no_permission, db)"
  by (simp add: updateMatchStatus_def)

lemma ownedMatch_SomeD:
  "ownedMatch db matchId smeId = Some m \<Longrightarrow>
   m \<in> set (project_matches db) \<and> pm_id m = matchId \<and>
   (\<exists>p \<in> set (projects db). pm_project_id m = p_id p \<and> p_sme_id p = smeId)"
  unfolding ownedMatch_def by (drule find_SomeD) simp

lemma updateMatchStatus_some:
  assumes "ownedMatch db matchId smeId = Some m"
  shows "snd (updateMatchStatus db matchId smeId status now) =
           db\<lparr>project_matches :=
                 map (afterStatus matchId (pm_project_id m) status now) (project_matches db),
               projects := map (cascade (pm_project_id m) status now) (projects db)\<rparr> \<and>
         (\<exists>u. fst (updateMatchStatus db matchId smeId status now) = Inr u \<and>
              pm_id u = matchId \<and> pm_status u = status_of status)"
proof -
  let ?rows = "map (afterStatus matchId (pm_project_id m) status now) (project_matches db)"
  let ?db3 = "db\<lparr>project_matches := ?rows,
               projects := map (cascade (pm_project_id m) status now) (projects db)\<rparr>"
  obtain u where u: "find (\<lambda>pm. pm_id pm = matchId) (project_matches db) = Some u"
    using find_weaken [OF assms [unfolded ownedMatch_def], of "\<lambda>pm. pm_id pm = matchId"] by auto
  have "find (\<lambda>pm. pm_id pm = matchId) ?rows =
      map_option (afterStatus matchId (pm_project_id m) status now)
        (find (\<lambda>pm. pm_id pm = matchId) (project_matches db))"
    by (rule find_map_keep) simp
  with u have refound: "find (\<lambda>pm. pm_id pm = matchId) ?rows =
      Some (afterStatus matchId (pm_project_id m) status now u)" by simp
  from u have "pm_id u = matchId" using find_SomeD by fastforce
  then have st: "pm_status (afterStatus matchId (pm_project_id m) status now u) = status_of status"
    by (simp add: afterStatus_def)
  have rows: "
      (if status = To_completed
       then setProjectStatus (pm_project_id m) Status_completed now
          (if status = To_accepted
           then rejectOtherPending (pm_project_id m) matchId now
                  (setProjectStatus (pm_project_id m) Status_in_progress now
                    (db\<lparr>project_matches := map (\<lambda>pm. if pm_id pm = matchId
                          then pm\<lparr>pm_status := status_of status, pm_updated_at := now\<rparr>
                          else pm) (project_matches db)\<rparr>))
           else db\<lparr>project_matches := map (\<lambda>pm. if pm_id pm = matchId
                          then pm\<lparr>pm_status := status_of status, pm_updated_at := now\<rparr>
                          else pm) (project_matches db)\<rparr>)
       else (if status = To_accepted
           then rejectOtherPending (pm_project_id m) matchId now
                  (setProjectStatus (pm_project_id m) Status_in_progress now
                    (db\<lparr>project_matches := map (\<lambda>pm. if pm_id pm = matchId
                          then pm\<lparr>pm_status := status_of status, pm_updated_at := now\<rparr>
                          else pm) (project_matches db)\<rparr>))
           else db\<lparr>project_matches := map (\<lambda>pm. if pm_id pm = matchId
                          then pm\<lparr>pm_status := status_of status, pm_updated_at := now\<rparr>
                          else pm) (project_matches db)\<rparr>)) = ?db3"
    by (cases status) (auto simp: setProjectStatus_def rejectOtherPending_def afterStatus_def cascade_def)
  show ?thesis
    using assms refound st \<open>pm_id u = matchId\<close>
    by (simp add: updateMatchStatus_def Let_def rows)
qed

lemma updateMatchStatus_succeeds_iff:
  "succeeded (updateMatchStatus db matchId smeId status now) \<longleftrightarrow>
     (\<exists>pm \<in> set (project_matches db). pm_id pm = matchId \<and>
        (\<exists>p \<in> set (projects db). pm_project_id pm = p_id p \<and> p_sme_id p = smeId))"
proof (cases "ownedMatch db matchId smeId")
  case None
  then have "\<not> succeeded (updateMatchStatus db matchId smeId status now)"
    by (simp add: updateMatchStatus_none succeeded_def)
  moreover from None have "\<forall>pm \<in> set (project_matches db). \<not> (pm_id pm = matchId \<and>
        (\<exists>p \<in> set (projects db). pm_project_id pm = p_id p \<and> p_sme_id p = smeId))"
    unfolding ownedMatch_def by (simp only: find_None_conv)
  ultimately show ?thesis by blast
next
  case (Some m)
  then have "succeeded (updateMatchStatus db matchId smeId status now)"
    using updateMatchStatus_some [OF Some, of status now] by (auto simp: succeeded_def)
  moreover from Some have "\<exists>pm \<in> set (project_matches db). pm_id pm = matchId \<and>
        (\<exists>p \<in> set (projects db). pm_project_id pm = p_id p \<and> p_sme_id p = smeId)"
    using ownedMatch_SomeD by blast
  ultimately show ?thesis by blast
qed

lemma updateMatchStatus_fail:
  "\<not> succeeded (updateMatchStatus db matchId smeId status now) \<Longrightarrow>
   snd (updateMatchStatus db matchId smeId status now) = db \<and>
   fst (updateMatchStatus db matchId smeId status now) = Inl Match_not_found_or_no_permission"
proof (cases "ownedMatch db matchId smeId")
  case None
  then show ?thesis by (simp add: updateMatchStatus_none)
next
  case (Some m)
  assume "\<not> succeeded (updateMatchStatus db matchId smeId status now)"
  with updateMatchStatus_some [OF Some, of status now] show ?thesis
    by (auto simp: succeeded_def)
qed

lemma updateMatchStatus_sets:
  assumes "succeeded (updateMatchStatus db matchId smeId status now)"
    and "pm \<in> set (project_matches (snd (updateMatchStatus db matchId smeId status now)))"
    and "pm_id pm = matchId"
  shows "pm_status pm = status_of status"
proof (cases "ownedMatch db matchId smeId")
  case None
  with assms(1) show ?thesis by (simp add: updateMatchStatus_none succeeded_def)
next
  case (Some m)
  from updateMatchStatus_some [OF Some, of status now]
  have "project_matches (snd (updateMatchStatus db matchId smeId status now)) =
      map (afterStatus matchId (pm_project_id m) status now) (project_matches db)"
    by simp
  with assms(2) obtain x where x: "pm = afterStatus matchId (pm_project_id m) status now x"
    by auto
  have "pm_id x = pm_id pm" unfolding x by simp
  with assms(3) have "pm_id x = matchId" by simp
  then have "pm_status (afterStatus matchId (pm_project_id m) status now x) = status_of status"
    by (simp add: afterStatus_def)
  then show ?thesis unfolding x .
qed

text \<open>
  Claim C2, as the code has it. \<open>updateMatchStatus\<close> fails, with the database unchanged,
  exactly when no match with the given id exists whose project belongs to the acting
  user. It never looks at the status the match has: whenever such a match exists the
  call succeeds, from any prior status, and every row with that id has the requested
  status afterwards.
\<close>

theorem updateMatchStatus_no_state_guard:
  "(succeeded (updateMatchStatus db matchId smeId status now) \<longleftrightarrow>
      (\<exists>pm \<in> set (project_matches db). pm_id pm = matchId \<and>
         (\<exists>p \<in> set (projects db). pm_project_id pm = p_id p \<and> p_sme_id p = smeId))) \<and>
   (\<not> succeeded (updateMatchStatus db matchId smeId status now) \<longrightarrow>
      snd (updateMatchStatus db matchId smeId status now) = db \<and>
      fst (updateMatchStatus db matchId smeId status now) = Inl Match_not_found_or_no_permission) \<and>
   (succeeded (updateMatchStatus db matchId smeId status now) \<longrightarrow>
      (\<forall>pm \<in> set (project_matches (snd (updateMatchStatus db matchId smeId status now))).
         pm_id pm = matchId \<longrightarrow> pm_status pm = status_of status))"
  using updateMatchStatus_succeeds_iff [of db matchId smeId status now]
    updateMatchStatus_fail [of db matchId smeId status now]
    updateMatchStatus_sets [of db matchId smeId status now]
  by blast

theorem updateMatchStatus_no_state_guard_witness:
  "matchStatus db2 ''m1'' = Some Match_rejected \<and>
   succeeded (updateMatchStatus db2 ''m1'' ''s1'' To_completed ''t2'') \<and>
   matchStatus (snd (updateMatchStatus db2 ''m1'' ''s1'' To_completed ''t2'')) ''m1'' =
     Some Match_completed \<and>
   \<not> succeeded (updateMatchStatus db2 ''m1'' ''s2'' To_completed ''t2'') \<and>
   snd (updateMatchStatus db2 ''m1'' ''s2'' To_completed ''t2'') = db2"
proof -
  have a: "matchStatus db2 ''m1'' = Some Match_rejected" by code_simp
  have b: "\<exists>pm \<in> set (project_matches db2). pm_id pm = ''m1'' \<and>
         (\<exists>p \<in> set (projects db2). pm_project_id pm = p_id p \<and> p_sme_id p = ''s1'')"
    by code_simp
  have c: "\<not> (\<exists>pm \<in> set (project_matches db2). pm_id pm = ''m1'' \<and>
         (\<exists>p \<in> set (projects db2). pm_project_id pm = p_id p \<and> p_sme_id p = ''s2''))"
    by code_simp
  note t1 = updateMatchStatus_no_state_guard [of db2 "''m1''" "''s1''" To_completed "''t2''"]
  note t2 = updateMatchStatus_no_state_guard [of db2 "''m1''" "''s2''" To_completed "''t2''"]
  from t1 b have s: "succeeded (updateMatchStatus db2 ''m1'' ''s1'' To_completed ''t2'')"
    by blast
  from t2 c have f: "\<not> succeeded (updateMatchStatus db2 ''m1'' ''s2'' To_completed ''t2'')"
    by blast
  with t2 have g: "snd (updateMatchStatus db2 ''m1'' ''s2'' To_completed ''t2'') = db2"
    by blast
  have d: "matchStatus (snd (updateMatchStatus db2 ''m1'' ''s1'' To_completed ''t2'')) ''m1'' =
     Some Match_completed" by code_simp
  from a s d f g show ?thesis by blast
qed

text \<open>The claim as the specification states it fails: completing a pending match
  succeeds.\<close>

theorem updateMatchStatus_completes_pending:
  "matchStatus db1 ''m0'' = Some Match_pending \<and>
   succeeded (updateMatchStatus db1 ''m0'' ''s1'' To_completed ''t1'') \<and>
   matchStatus (snd (updateMatchStatus db1 ''m0'' ''s1'' To_completed ''t1'')) ''m0'' =
     Some Match_completed"
  by code_simp

section \<open>Who writes the status of a project\<close>

lemma find_append_last:
  "find P (xs @ [x]) = (case find P xs of Some y \<Rightarrow> Some y | None \<Rightarrow> if P x then Some x else None)"
  by (induction xs) auto

lemma find_filter_key:
  "find (\<lambda>y. k y = key) (filter (\<lambda>y. k y \<noteq> key') xs) =
     (if key = key' then None else find (\<lambda>y. k y = key) xs)"
  by (induction xs) auto

lemma find_key_eq: "find (\<lambda>y. k y = key) xs = Some x \<Longrightarrow> k x = key"
  by (drule find_SomeD) simp

lemma generateProjectMatches_projects:
  "projects (snd (generateProjectMatches db project now matchIds)) = projects db"
  by (simp add: generateProjectMatches_def Let_def split: prod.splits)

lemma generateProjectMatches_projectsD:
  "generateProjectMatches db project now matchIds = (r, db') \<Longrightarrow> projects db' = projects db"
  using generateProjectMatches_projects [of db project now matchIds] by simp

lemma createProject_projects:
  "projects (snd (createProject db smeId projectData projectId now now2 matchIds)) =
     (if projectId \<in> p_id ` set (projects db) then projects db
      else projects db @
        [\<lparr>p_id = projectId, p_sme_id = smeId, p_title = title projectData,
          p_description = description projectData, p_requirements = requirements projectData,
          p_budget = budget projectData, p_deadline = deadline projectData,
          p_status = Status_open, p_created_at = now, p_updated_at = now\<rparr>])"
proof (cases "projectId \<in> p_id ` set (projects db)")
  case True
  then show ?thesis by (simp add: createProject_def)
next
  case False
  then have "find (\<lambda>p. p_id p = projectId) (projects db) = None"
    by (auto simp: find_None_conv)
  with False show ?thesis
    by (auto simp: createProject_def Let_def find_append_last
        split: prod.splits sum.splits dest!: generateProjectMatches_projectsD)
qed

lemma projectStatus_createProject:
  "projectStatus (snd (createProject db smeId projectData pid now now2 matchIds)) projectId =
     (if pid = projectId \<and> projectStatus db projectId = None then Some Status_open
      else projectStatus db projectId)"
proof (cases "pid \<in> p_id ` set (projects db)")
  case True
  then have "find (\<lambda>p. p_id p = pid) (projects db) \<noteq> None"
    by (auto simp: find_None_conv)
  with True show ?thesis
    by (auto simp: projectStatus_def createProject_projects)
next
  case False
  then have "find (\<lambda>p. p_id p = pid) (projects db) = None"
    by (auto simp: find_None_conv)
  with False show ?thesis
    by (auto simp: projectStatus_def createProject_projects find_append_last split: option.splits)
qed

lemma applyPatch_id [simp]: "p_id (applyPatch projectData now p) = p_id p"
  by (simp add: applyPatch_def)

lemma applyPatch_status [simp]:
  "p_status (applyPatch projectData now p) =
     (case new_status projectData of None \<Rightarrow> p_status p | Some v \<Rightarrow> v)"
  by (simp add: applyPatch_def)

lemma updateProject_projects:
  "projects (snd (updateProject db pid smeId projectData now)) =
     (if \<exists>p \<in> set (projects db). p_id p = pid \<and> p_sme_id p = smeId
      then map (\<lambda>p. if p_id p = pid then applyPatch projectData now p else p) (projects db)
      else projects db)"
proof (cases "find (\<lambda>p. p_id p = pid \<and> p_sme_id p = smeId) (projects db)")
  case None
  then have "\<not> (\<exists>p \<in> set (projects db). p_id p = pid \<and> p_sme_id p = smeId)"
    by (simp add: find_None_conv)
  with None show ?thesis by (auto simp: updateProject_def)
next
  case (Some e)
  then have "\<exists>p \<in> set (projects db). p_id p = pid \<and> p_sme_id p = smeId"
    using find_SomeD by fastforce
  with Some show ?thesis
    by (simp add: updateProject_def Let_def split: option.splits)
qed

lemma projectStatus_updateProject:
  "projectStatus (snd (updateProject db pid smeId projectData now)) projectId =
     (if pid = projectId \<and> (\<exists>p \<in> set (projects db). p_id p = pid \<and> p_sme_id p = smeId)
      then (case new_status projectData of
              None \<Rightarrow> projectStatus db projectId | Some v \<Rightarrow> Some v)
      else projectStatus db projectId)"
proof (cases "\<exists>p \<in> set (projects db). p_id p = pid \<and> p_sme_id p = smeId")
  case False
  then show ?thesis by (auto simp: projectStatus_def updateProject_projects)
next
  case True
  let ?f = "\<lambda>p. if p_id p = pid then applyPatch projectData now p else p"
  have keep: "find (\<lambda>p. p_id p = projectId) (map ?f (projects db)) =
      map_option ?f (find (\<lambda>p. p_id p = projectId) (projects db))"
    by (rule find_map_keep) simp
  show ?thesis
  proof (cases "find (\<lambda>p. p_id p = projectId) (projects db)")
    case None
    with True keep have "projectStatus (snd (updateProject db pid smeId projectData now)) projectId
        = None"
      by (simp add: projectStatus_def updateProject_projects)
    moreover from None True have "pid \<noteq> projectId" by (auto simp: find_None_conv)
    ultimately show ?thesis using None by (simp add: projectStatus_def)
  next
    case (Some x)
    then have "p_id x = projectId" by (rule find_key_eq)
    with Some True keep show ?thesis
      by (simp add: projectStatus_def updateProject_projects split: option.splits)
  qed
qed

lemma deleteProject_projects:
  "projects (snd (deleteProject db pid smeId)) =
     (if \<exists>p \<in> set (projects db). p_id p = pid \<and> p_sme_id p = smeId
      then filter (\<lambda>p. p_id p \<noteq> pid) (projects db) else projects db)"
proof (cases "find (\<lambda>p. p_id p = pid \<and> p_sme_id p = smeId) (projects db)")
  case None
  then have "\<not> (\<exists>p \<in> set (projects db). p_id p = pid \<and> p_sme_id p = smeId)"
    by (simp add: find_None_conv)
  with None show ?thesis by (auto simp: deleteProject_def)
next
  case (Some e)
  then have "\<exists>p \<in> set (projects db). p_id p = pid \<and> p_sme_id p = smeId"
    using find_SomeD by fastforce
  with Some show ?thesis by (simp add: deleteProject_def Let_def)
qed

lemma projectStatus_deleteProject:
  "projectStatus (snd (deleteProject db pid smeId)) projectId =
     (if pid = projectId \<and> (\<exists>p \<in> set (projects db). p_id p = pid \<and> p_sme_id p = smeId)
      then None else projectStatus db projectId)"
  by (auto simp: projectStatus_def deleteProject_projects find_filter_key)

lemma submitProposal_projects:
  "projects (snd (submitProposal db matchId consultantId proposal price now)) = projects db"
  by (simp add: submitProposal_def Let_def split: option.splits)

lemma projectStatus_updateMatchStatus:
  "projectStatus (snd (updateMatchStatus db matchId smeId status now)) projectId =
     (case ownedMatch db matchId smeId of
        None \<Rightarrow> projectStatus db projectId
      | Some existingMatch \<Rightarrow>
          if pm_project_id existingMatch = projectId
          then (case status of
                  To_accepted \<Rightarrow> Some Status_in_progress
                | To_completed \<Rightarrow> Some Status_completed
                | To_rejected \<Rightarrow> projectStatus db projectId)
          else projectStatus db projectId)"
proof (cases "ownedMatch db matchId smeId")
  case None
  then show ?thesis by (simp add: updateMatchStatus_none)
next
  case (Some m)
  have keep: "find (\<lambda>p. p_id p = projectId) (map (cascade (pm_project_id m) status now) (projects db))
      = map_option (cascade (pm_project_id m) status now) (find (\<lambda>p. p_id p = projectId) (projects db))"
    by (rule find_map_keep) simp
  from updateMatchStatus_some [OF Some, of status now]
  have ps: "projects (snd (updateMatchStatus db matchId smeId status now)) =
      map (cascade (pm_project_id m) status now) (projects db)" by simp
  show ?thesis
  proof (cases "find (\<lambda>p. p_id p = projectId) (projects db)")
    case None
    then have "pm_project_id m \<noteq> projectId"
      using ownedMatch_SomeD [OF Some] by (auto simp: find_None_conv)
    with None Some keep ps show ?thesis by (simp add: projectStatus_def)
  next
    case (Some x)
    then have "p_id x = projectId" by (rule find_key_eq)
    with Some \<open>ownedMatch db matchId smeId = Some m\<close> keep ps show ?thesis
      by (cases status) (simp_all add: projectStatus_def cascade_def)
  qed
qed

text \<open>
  Claim C4, as the code has it. After any core operation the status of a project is the
  one the operation writes according to \<open>statusWritten\<close>, and otherwise the status it had:
  it changes through the cascade of \<open>updateMatchStatus\<close> (accepted gives in progress,
  completed gives completed) and through \<open>updateProject\<close> called by the owner with a
  status field; a project appears as open at its creation and disappears at its
  deletion. \<open>submitProposal\<close>, rejecting a match, and \<open>updateProject\<close> without a status
  field change no status.
\<close>

theorem project_status_written:
  "projectStatus (exec op db) projectId =
     (case statusWritten op db projectId of
        None \<Rightarrow> projectStatus db projectId
      | Some written \<Rightarrow> written)"
proof (cases op)
  case (CreateProject smeId projectData pid now now2 matchIds)
  then show ?thesis by (auto simp: projectStatus_createProject)
next
  case (UpdateProject pid smeId projectData now)
  then show ?thesis by (auto simp: projectStatus_updateProject split: option.splits)
next
  case (DeleteProject pid smeId)
  then show ?thesis by (auto simp: projectStatus_deleteProject)
next
  case (SubmitProposal matchId consultantId proposal price now)
  then show ?thesis by (simp add: projectStatus_def submitProposal_projects)
next
  case (UpdateMatchStatus matchId smeId status now)
  then show ?thesis
    by (simp add: projectStatus_updateMatchStatus split: option.splits new_status.splits)
qed

theorem project_status_written_witness:
  "statusWritten (UpdateMatchStatus ''m0'' ''s1'' To_accepted ''t1'') db1 ''p1'' =
     Some (Some Status_in_progress) \<and>
   projectStatus (exec (UpdateMatchStatus ''m0'' ''s1'' To_accepted ''t1'') db1) ''p1'' =
     Some Status_in_progress \<and>
   statusWritten (UpdateMatchStatus ''m0'' ''s1'' To_rejected ''t1'') db1 ''p1'' = None \<and>
   projectStatus (exec (UpdateMatchStatus ''m0'' ''s1'' To_rejected ''t1'') db1) ''p1'' =
     projectStatus db1 ''p1''"
proof -
  have a: "statusWritten (UpdateMatchStatus ''m0'' ''s1'' To_accepted ''t1'') db1 ''p1'' =
     Some (Some Status_in_progress)" by code_simp
  have b: "statusWritten (UpdateMatchStatus ''m0'' ''s1'' To_rejected ''t1'') db1 ''p1'' = None"
    by code_simp
  from project_status_written [of "UpdateMatchStatus ''m0'' ''s1'' To_accepted ''t1''" db1 "''p1''"]
  have c: "projectStatus (exec (UpdateMatchStatus ''m0'' ''s1'' To_accepted ''t1'') db1) ''p1'' =
     Some Status_in_progress" unfolding a by simp
  from project_status_written [of "UpdateMatchStatus ''m0'' ''s1'' To_rejected ''t1''" db1 "''p1''"]
  have d: "projectStatus (exec (UpdateMatchStatus ''m0'' ''s1'' To_rejected ''t1'') db1) ''p1'' =
     projectStatus db1 ''p1''" unfolding b by simp
  from a b c d show ?thesis by blast
qed

text \<open>The claim as the specification states it fails: the owner cancels an open
  project with \<open>updateProject\<close>.\<close>

theorem updateProject_changes_status:
  "projectStatus db1 ''p1'' = Some Status_open \<and>
   succeeded (updateProject db1 ''p1'' ''s1'' patchCancel ''t1'') \<and>
   projectStatus (snd (updateProject db1 ''p1'' ''s1'' patchCancel ''t1'')) ''p1'' =
     Some Status_cancelled"
  by code_simp

section \<open>What match generation persists\<close>

lemma scoreLoop_eq:
  "scoreLoop kws cs acc =
     acc @ map (scored kws) (filter (\<lambda>c. computedScore c kws \<ge> toDouble 0.3) cs)"
proof (induction cs arbitrary: acc)
  case Nil
  then show ?case by simp
next
  case (Cons c cs)
  have comb: "dadd (dmul (toDouble (calculateExpertiseMatch (c_expertise c) kws)) (toDouble 0.6))
      (dmul (toDouble (calculateExperienceScore (c_experience_years c))) (toDouble 0.4)) =
      computedScore c kws"
    by (simp only: computedScore_def)
  show ?case
    by (simp add: Cons.IH Let_def scored_def del: scoreLoop.simps
        add: scoreLoop.simps(2) [of kws c cs acc, unfolded Let_def comb])
qed

lemma insertLoop_rows:
  "\<exists>k matchIds'. k \<le> length ms \<and> length matchIds' = k \<and>
     snd (insertLoop rows projectId now matchIds i ms) =
       rows @ map2 (matchRow projectId now) matchIds' (take k ms) \<and>
     (fst (insertLoop rows projectId now matchIds i ms) = Inr () \<longrightarrow> k = length ms)"
proof (induction ms arbitrary: rows i)
  case Nil
  then show ?case by simp
next
  case (Cons m ms)
  show ?case
  proof (cases "matchIds i \<in> pm_id ` set rows")
    case True
    then have "snd (insertLoop rows projectId now matchIds i (m # ms)) =
        rows @ map2 (matchRow projectId now) [] (take 0 (m # ms))"
      and "fst (insertLoop rows projectId now matchIds i (m # ms)) \<noteq> Inr ()"
      by simp_all
    then show ?thesis by (metis le0 list.size(3))
  next
    case False
    let ?row = "matchRow projectId now (matchIds i) m"
    from False have step: "insertLoop rows projectId now matchIds i (m # ms) =
        insertLoop (rows @ [?row]) projectId now matchIds (Suc i) ms"
      by (simp add: matchRow_def)
    from Cons.IH [of "rows @ [?row]" "Suc i"] obtain k matchIds' where
      k: "k \<le> length ms" "length matchIds' = k"
      "snd (insertLoop (rows @ [?row]) projectId now matchIds (Suc i) ms) =
         (rows @ [?row]) @ map2 (matchRow projectId now) matchIds' (take k ms)"
      "fst (insertLoop (rows @ [?row]) projectId now matchIds (Suc i) ms) = Inr () \<longrightarrow>
         k = length ms"
      by blast
    have "Suc k \<le> length (m # ms)" using k(1) by simp
    moreover have "length (matchIds i # matchIds') = Suc k" using k(2) by simp
    moreover have "snd (insertLoop rows projectId now matchIds i (m # ms)) =
        rows @ map2 (matchRow projectId now) (matchIds i # matchIds') (take (Suc k) (m # ms))"
      unfolding step k(3) by simp
    moreover have "fst (insertLoop rows projectId now matchIds i (m # ms)) = Inr () \<longrightarrow>
        Suc k = length (m # ms)"
      unfolding step using k(4) by simp
    ultimately show ?thesis by blast
  qed
qed

lemma topMatches_length: "length (topMatches kws cs) \<le> 10"
  by (simp add: topMatches_def)

lemma topMatches_length_eq:
  "length (topMatches kws cs) =
     min 10 (length (filter (\<lambda>c. computedScore c kws \<ge> toDouble 0.3) cs))"
  by (simp add: topMatches_def scoreLoop_eq min.commute)

lemma topMatches_set:
  "m \<in> set (topMatches kws cs) \<Longrightarrow>
   \<exists>c \<in> set cs. computedScore c kws \<ge> toDouble 0.3 \<and> m = scored kws c"
proof -
  assume "m \<in> set (topMatches kws cs)"
  then have "m \<in> set (sort_key (\<lambda>m. - match_score m) (scoreLoop kws cs []))"
    unfolding topMatches_def by (rule in_set_takeD)
  then show ?thesis by (auto simp: scoreLoop_eq)
qed

lemma topMatches_sorted: "sorted_wrt (\<ge>) (map match_score (topMatches kws cs))"
proof -
  have "sorted (map (\<lambda>m. - match_score m) (sort_key (\<lambda>m. - match_score m) (scoreLoop kws cs [])))"
    by (rule sorted_sort_key)
  then have "sorted_wrt (\<lambda>a b. - match_score a \<le> - match_score b)
      (sort_key (\<lambda>m. - match_score m) (scoreLoop kws cs []))"
    by (simp add: sorted_wrt_map)
  then have "sorted_wrt (\<lambda>a b. match_score a \<ge> match_score b)
      (sort_key (\<lambda>m. - match_score m) (scoreLoop kws cs []))"
    by simp
  then have "sorted_wrt (\<lambda>a b. match_score a \<ge> match_score b) (topMatches kws cs)"
    unfolding topMatches_def by (rule sorted_wrt_take)
  then show ?thesis by (simp add: sorted_wrt_map)
qed


lemma generateProjectMatches_eq:
  "generateProjectMatches db project now matchIds =
     (fst (insertLoop (project_matches db) (p_id project) now matchIds 0
             (topMatches (projectKeywordsOf project) (consultant_profiles db))),
      db\<lparr>project_matches :=
           snd (insertLoop (project_matches db) (p_id project) now matchIds 0
                  (topMatches (projectKeywordsOf project) (consultant_profiles db)))\<rparr>)"
  by (simp add: generateProjectMatches_def Let_def split: prod.splits)

lemma map2_matchRow_score:
  "length is = length ms \<Longrightarrow>
   map pm_match_score (map2 (matchRow projectId now) is ms) = map match_score ms"
  by (induction "is" ms rule: list_induct2) (simp_all add: matchRow_def)

lemma map2_matchRow_consultant:
  "length is = length ms \<Longrightarrow>
   map pm_consultant_id (map2 (matchRow projectId now) is ms) = map consultant_id ms"
  by (induction "is" ms rule: list_induct2) (simp_all add: matchRow_def)

lemma map2_matchRow_set:
  "row \<in> set (map2 (matchRow projectId now) is ms) \<Longrightarrow>
   \<exists>matchId. \<exists>m \<in> set ms. row = matchRow projectId now matchId m"
  by (auto dest: set_zip_rightD)

lemma generateProjectMatches_rows:
  "\<exists>k matchIds'. k \<le> length (topMatches (projectKeywordsOf project) (consultant_profiles db)) \<and>
     length matchIds' = k \<and>
     newRows db (snd (generateProjectMatches db project now matchIds)) =
       map2 (matchRow (p_id project) now) matchIds'
         (take k (topMatches (projectKeywordsOf project) (consultant_profiles db))) \<and>
     project_matches (snd (generateProjectMatches db project now matchIds)) =
       project_matches db @ newRows db (snd (generateProjectMatches db project now matchIds)) \<and>
     (succeeded (generateProjectMatches db project now matchIds) \<longrightarrow>
        k = length (topMatches (projectKeywordsOf project) (consultant_profiles db)))"
proof -
  let ?top = "topMatches (projectKeywordsOf project) (consultant_profiles db)"
  let ?loop = "insertLoop (project_matches db) (p_id project) now matchIds 0 ?top"
  from insertLoop_rows [of ?top "project_matches db" "p_id project" now matchIds 0]
  obtain k matchIds' where k: "k \<le> length ?top" "length matchIds' = k"
    "snd ?loop = project_matches db @ map2 (matchRow (p_id project) now) matchIds' (take k ?top)"
    "fst ?loop = Inr () \<longrightarrow> k = length ?top"
    by blast
  have rows: "project_matches (snd (generateProjectMatches db project now matchIds)) = snd ?loop"
    by (simp add: generateProjectMatches_eq)
  have new: "newRows db (snd (generateProjectMatches db project now matchIds)) =
      map2 (matchRow (p_id project) now) matchIds' (take k ?top)"
    unfolding newRows_def rows k(3) by simp
  have "succeeded (generateProjectMatches db project now matchIds) \<longrightarrow> fst ?loop = Inr ()"
    by (auto simp: succeeded_def generateProjectMatches_eq split: sum.splits)
  with k(4) have "succeeded (generateProjectMatches db project now matchIds) \<longrightarrow> k = length ?top"
    by blast
  moreover have "project_matches (snd (generateProjectMatches db project now matchIds)) =
       project_matches db @ newRows db (snd (generateProjectMatches db project now matchIds))"
    unfolding new unfolding rows k(3) ..
  ultimately show ?thesis using k(1,2) new by blast
qed

lemma generateProjectMatches_new_rows:
  "project_matches (snd (generateProjectMatches db project now matchIds)) =
     project_matches db @ newRows db (snd (generateProjectMatches db project now matchIds)) \<and>
   length (newRows db (snd (generateProjectMatches db project now matchIds))) \<le> 10 \<and>
   (\<forall>row \<in> set (newRows db (snd (generateProjectMatches db project now matchIds))).
      pm_status row = Match_pending \<and> pm_proposal row = None \<and> pm_price row = None \<and>
      pm_project_id row = p_id project \<and>
      (\<exists>c \<in> set (consultant_profiles db).
         pm_consultant_id row = c_id c \<and>
         computedScore c (projectKeywordsOf project) \<ge> toDouble 0.3 \<and>
         pm_match_score row =
           ddiv (Math_round (dmul (computedScore c (projectKeywordsOf project)) 100)) 100)) \<and>
   sorted_wrt (\<ge>)
     (map pm_match_score (newRows db (snd (generateProjectMatches db project now matchIds)))) \<and>
   (succeeded (generateProjectMatches db project now matchIds) \<longrightarrow>
      length (newRows db (snd (generateProjectMatches db project now matchIds))) =
        min 10 (length (filter (\<lambda>c. computedScore c (projectKeywordsOf project) \<ge> toDouble 0.3)
                          (consultant_profiles db))))"
proof -
  let ?kws = "projectKeywordsOf project"
  let ?top = "topMatches ?kws (consultant_profiles db)"
  let ?new = "newRows db (snd (generateProjectMatches db project now matchIds))"
  from generateProjectMatches_rows [of project db now matchIds]
  obtain k matchIds' where k: "k \<le> length ?top" "length matchIds' = k"
    "?new = map2 (matchRow (p_id project) now) matchIds' (take k ?top)"
    "project_matches (snd (generateProjectMatches db project now matchIds)) =
       project_matches db @ ?new"
    "succeeded (generateProjectMatches db project now matchIds) \<longrightarrow> k = length ?top"
    by blast
  have len: "length matchIds' = length (take k ?top)" using k(1,2) by simp
  have "length ?new = k" unfolding k(3) using k(1,2) by simp
  with k(1) topMatches_length [of ?kws "consultant_profiles db"]
  have c2: "length ?new \<le> 10" by linarith
  have c3: "\<forall>row \<in> set ?new.
      pm_status row = Match_pending \<and> pm_proposal row = None \<and> pm_price row = None \<and>
      pm_project_id row = p_id project \<and>
      (\<exists>c \<in> set (consultant_profiles db).
         pm_consultant_id row = c_id c \<and> computedScore c ?kws \<ge> toDouble 0.3 \<and>
         pm_match_score row = ddiv (Math_round (dmul (computedScore c ?kws) 100)) 100)"
  proof
    fix row assume "row \<in> set ?new"
    then obtain matchId m where m: "m \<in> set (take k ?top)"
      "row = matchRow (p_id project) now matchId m"
      unfolding k(3) using map2_matchRow_set by blast
    from m(1) have "m \<in> set ?top" by (rule in_set_takeD)
    then obtain c where c: "c \<in> set (consultant_profiles db)"
      "computedScore c ?kws \<ge> toDouble 0.3" "m = scored ?kws c"
      using topMatches_set by blast
    with m(2) show "pm_status row = Match_pending \<and> pm_proposal row = None \<and>
      pm_price row = None \<and> pm_project_id row = p_id project \<and>
      (\<exists>c \<in> set (consultant_profiles db).
         pm_consultant_id row = c_id c \<and> computedScore c ?kws \<ge> toDouble 0.3 \<and>
         pm_match_score row = ddiv (Math_round (dmul (computedScore c ?kws) 100)) 100)"
      by (auto simp: matchRow_def scored_def)
  qed
  have "sorted_wrt (\<ge>) (map match_score ?top)" by (rule topMatches_sorted)
  then have "sorted_wrt (\<ge>) (take k (map match_score ?top))" by (rule sorted_wrt_take)
  then have c4: "sorted_wrt (\<ge>) (map pm_match_score ?new)"
    unfolding k(3) map2_matchRow_score [OF len] by (simp add: take_map)
  have c5: "succeeded (generateProjectMatches db project now matchIds) \<longrightarrow>
      length ?new = min 10 (length (filter (\<lambda>c. computedScore c ?kws \<ge> toDouble 0.3)
                          (consultant_profiles db)))"
    using k(5) \<open>length ?new = k\<close> topMatches_length_eq [of ?kws "consultant_profiles db"]
    by simp
  from k(4) c2 c3 c4 c5 show ?thesis by blast
qed




text \<open>The second consultant of that pool: three of eight keywords and five years give
  \<^verbatim>\<open>0.5049999999999999\<close>, below the \<^verbatim>\<open>0.505\<close> of exact arithmetic, and \<^verbatim>\<open>0.5\<close> is stored.\<close>

lemma computedScore_rounds_down:
  "computedScore (pool8 ! 1) (projectKeywordsOf project8) = 568579452955525 / 2 ^ 50 \<and>
   computedScore (pool8 ! 1) (projectKeywordsOf project8) < 0.505 \<and>
   match_score (scored (projectKeywordsOf project8) (pool8 ! 1)) = 0.5"
  by code_simp

section \<open>A project without keywords\<close>

lemma spec_combined_no_keywords:
  "spec_combined c [] = 0.4 * calculateExperienceScore (c_experience_years c)"
  by (simp add: spec_combined_def calculateExpertiseMatch_def)

lemma experience_threshold: "0.4 * calculateExperienceScore y \<ge> 0.3 \<longleftrightarrow> y \<ge> 7"
  by (simp add: calculateExperienceScore_def)

lemma experience_08: "calculateExperienceScore y \<ge> 0.8 \<longleftrightarrow> y \<ge> 7"
  by (simp add: calculateExperienceScore_def)

lemma set_map_sort_key: "set (map g (sort_key f xs)) = g ` set xs"
  by simp

text \<open>Without keywords the double arithmetic decides as the exact one: evaluated at
  each of the seven values of the experience score.\<close>

lemma computedScore_no_keywords:
  "computedScore c [] \<ge> toDouble 0.3 \<longleftrightarrow> c_experience_years c \<ge> 7"
proof -
  let ?y = "c_experience_years c"
  have z: "calculateExpertiseMatch (c_expertise c) [] = 0"
    by (simp add: calculateExpertiseMatch_def)
  have f1: "dadd (dmul (toDouble 0) (toDouble 0.6)) (dmul (toDouble 1.0) (toDouble 0.4))
      \<ge> toDouble 0.3" by code_simp
  have f2: "dadd (dmul (toDouble 0) (toDouble 0.6)) (dmul (toDouble 0.9) (toDouble 0.4))
      \<ge> toDouble 0.3" by code_simp
  have f3: "dadd (dmul (toDouble 0) (toDouble 0.6)) (dmul (toDouble 0.8) (toDouble 0.4))
      \<ge> toDouble 0.3" by code_simp
  have f4: "\<not> dadd (dmul (toDouble 0) (toDouble 0.6)) (dmul (toDouble 0.7) (toDouble 0.4))
      \<ge> toDouble 0.3" by code_simp
  have f5: "\<not> dadd (dmul (toDouble 0) (toDouble 0.6)) (dmul (toDouble 0.6) (toDouble 0.4))
      \<ge> toDouble 0.3" by code_simp
  have f6: "\<not> dadd (dmul (toDouble 0) (toDouble 0.6)) (dmul (toDouble 0.5) (toDouble 0.4))
      \<ge> toDouble 0.3" by code_simp
  have f7: "\<not> dadd (dmul (toDouble 0) (toDouble 0.6)) (dmul (toDouble 0.3) (toDouble 0.4))
      \<ge> toDouble 0.3" by code_simp
  consider "?y \<ge> 15" | "10 \<le> ?y \<and> ?y < 15" | "7 \<le> ?y \<and> ?y < 10" | "5 \<le> ?y \<and> ?y < 7"
    | "3 \<le> ?y \<and> ?y < 5" | "1 \<le> ?y \<and> ?y < 3" | "?y < 1" by linarith
  then show ?thesis
  proof cases
    case 1
    then have es: "calculateExperienceScore ?y = 1.0" by (simp add: calculateExperienceScore_def)
    have "computedScore c [] \<ge> toDouble 0.3" unfolding computedScore_def z es by (rule f1)
    with 1 show ?thesis by simp
  next
    case 2
    then have es: "calculateExperienceScore ?y = 0.9" by (simp add: calculateExperienceScore_def)
    have "computedScore c [] \<ge> toDouble 0.3" unfolding computedScore_def z es by (rule f2)
    with 2 show ?thesis by simp
  next
    case 3
    then have es: "calculateExperienceScore ?y = 0.8" by (simp add: calculateExperienceScore_def)
    have "computedScore c [] \<ge> toDouble 0.3" unfolding computedScore_def z es by (rule f3)
    with 3 show ?thesis by simp
  next
    case 4
    then have es: "calculateExperienceScore ?y = 0.7" by (simp add: calculateExperienceScore_def)
    have "\<not> computedScore c [] \<ge> toDouble 0.3" unfolding computedScore_def z es by (rule f4)
    with 4 show ?thesis by simp
  next
    case 5
    then have es: "calculateExperienceScore ?y = 0.6" by (simp add: calculateExperienceScore_def)
    have "\<not> computedScore c [] \<ge> toDouble 0.3" unfolding computedScore_def z es by (rule f5)
    with 5 show ?thesis by simp
  next
    case 6
    then have es: "calculateExperienceScore ?y = 0.5" by (simp add: calculateExperienceScore_def)
    have "\<not> computedScore c [] \<ge> toDouble 0.3" unfolding computedScore_def z es by (rule f6)
    with 6 show ?thesis by simp
  next
    case 7
    then have es: "calculateExperienceScore ?y = 0.3" by (simp add: calculateExperienceScore_def)
    have "\<not> computedScore c [] \<ge> toDouble 0.3" unfolding computedScore_def z es by (rule f7)
    with 7 show ?thesis by simp
  qed
qed

text \<open>
  Claim C10. For a project whose title, description and requirements yield no keyword,
  the combined score of a consultant is 0.4 times the experience score; it reaches the
  threshold 0.30 exactly when the experience score is at least 0.8, that is when the
  consultant has at least 7 years of experience; so the scoring loop of match generation
  retains exactly the consultants with at least 7 years, in the order of the pool (the
  double arithmetic of the loop decides as the exact one on these values). Every
  persisted row then belongs to such a consultant, and when they are at most 10 and no
  insertion fails, the persisted rows are those of exactly these consultants.
\<close>

theorem no_keywords_seven_years:
  assumes "projectKeywordsOf project = []"
  shows "spec_combined c (projectKeywordsOf project) =
           0.4 * calculateExperienceScore (c_experience_years c) \<and>
         (spec_combined c (projectKeywordsOf project) \<ge> 0.3 \<longleftrightarrow>
            calculateExperienceScore (c_experience_years c) \<ge> 0.8) \<and>
         (spec_combined c (projectKeywordsOf project) \<ge> 0.3 \<longleftrightarrow> c_experience_years c \<ge> 7) \<and>
         scoreLoop (projectKeywordsOf project) (consultant_profiles db) [] =
           map (scored []) (filter (\<lambda>c. c_experience_years c \<ge> 7) (consultant_profiles db)) \<and>
         (\<forall>row \<in> set (newRows db (snd (generateProjectMatches db project now matchIds))).
            \<exists>c \<in> set (consultant_profiles db).
              pm_consultant_id row = c_id c \<and> c_experience_years c \<ge> 7) \<and>
         (succeeded (generateProjectMatches db project now matchIds) \<and>
          length (filter (\<lambda>c. c_experience_years c \<ge> 7) (consultant_profiles db)) \<le> 10 \<longrightarrow>
            set (map pm_consultant_id
                   (newRows db (snd (generateProjectMatches db project now matchIds)))) =
              c_id ` {c \<in> set (consultant_profiles db). c_experience_years c \<ge> 7}) \<and>
         (computedScore c (projectKeywordsOf project) \<ge> toDouble 0.3 \<longleftrightarrow>
            c_experience_years c \<ge> 7)"
proof -
  let ?pool = "consultant_profiles db"
  let ?new = "newRows db (snd (generateProjectMatches db project now matchIds))"
  have comb: "spec_combined c' (projectKeywordsOf project) \<ge> 0.3 \<longleftrightarrow> c_experience_years c' \<ge> 7"
    for c'
    unfolding assms spec_combined_no_keywords by (rule experience_threshold)
  have dbl: "computedScore c' (projectKeywordsOf project) \<ge> toDouble 0.3 \<longleftrightarrow>
      c_experience_years c' \<ge> 7" for c'
    unfolding assms by (rule computedScore_no_keywords)
  then have flt: "filter (\<lambda>c. computedScore c (projectKeywordsOf project) \<ge> toDouble 0.3) ?pool =
      filter (\<lambda>c. c_experience_years c \<ge> 7) ?pool"
    by simp
  have c1: "spec_combined c (projectKeywordsOf project) =
           0.4 * calculateExperienceScore (c_experience_years c)"
    unfolding assms by (rule spec_combined_no_keywords)
  have c2: "spec_combined c (projectKeywordsOf project) \<ge> 0.3 \<longleftrightarrow>
            calculateExperienceScore (c_experience_years c) \<ge> 0.8"
    unfolding comb experience_08 ..
  have c4: "scoreLoop (projectKeywordsOf project) ?pool [] =
           map (scored []) (filter (\<lambda>c. c_experience_years c \<ge> 7) ?pool)"
    unfolding scoreLoop_eq flt unfolding assms by simp
  have c5: "\<forall>row \<in> set ?new. \<exists>c \<in> set ?pool. pm_consultant_id row = c_id c \<and>
      c_experience_years c \<ge> 7"
    using generateProjectMatches_new_rows [of db project now matchIds] dbl by blast
  have c6: "set (map pm_consultant_id ?new) = c_id ` {c \<in> set ?pool. c_experience_years c \<ge> 7}"
    if ok: "succeeded (generateProjectMatches db project now matchIds)"
      and few: "length (filter (\<lambda>c. c_experience_years c \<ge> 7) ?pool) \<le> 10"
  proof -
    let ?top = "topMatches (projectKeywordsOf project) ?pool"
    from generateProjectMatches_rows [of project db now matchIds]
    obtain k' matchIds' where kk: "length matchIds' = k'"
      "?new = map2 (matchRow (p_id project) now) matchIds' (take k' ?top)"
      "succeeded (generateProjectMatches db project now matchIds) \<longrightarrow> k' = length ?top"
      by blast
    from kk(3) ok have keq: "k' = length ?top" by (rule mp)
    from kk(1,2) have k: "length matchIds' = length ?top"
      "?new = map2 (matchRow (p_id project) now) matchIds' (take (length ?top) ?top)"
      unfolding keq by simp_all
    have tk: "take (length ?top) ?top = ?top" by simp
    have "map pm_consultant_id ?new = map consultant_id ?top"
      unfolding k(2) tk by (rule map2_matchRow_consultant [OF k(1)])
    moreover have "?top = sort_key (\<lambda>m. - match_score m)
        (map (scored []) (filter (\<lambda>c. c_experience_years c \<ge> 7) ?pool))"
      unfolding topMatches_def c4 using few by simp
    ultimately have "set (map pm_consultant_id ?new) =
        consultant_id ` set (map (scored []) (filter (\<lambda>c. c_experience_years c \<ge> 7) ?pool))"
      by (simp only: set_map_sort_key)
    also have "\<dots> = c_id ` {c \<in> set ?pool. c_experience_years c \<ge> 7}"
      by (auto simp: scored_def image_iff)
    finally show ?thesis .
  qed
  from c1 c2 comb [of c] c4 c5 c6 dbl [of c] show ?thesis by blast
qed

theorem no_keywords_seven_years_witness:
  "projectKeywordsOf project1 = [] \<and>
   map consultant_id (scoreLoop (projectKeywordsOf project1) (consultant_profiles db0) []) =
     [''c1'', ''c2''] \<and>
   map c_id (filter (\<lambda>c. c_experience_years c \<ge> 7) (consultant_profiles db0)) =
     [''c1'', ''c2'']"
proof -
  have k: "projectKeywordsOf project1 = []" by code_simp
  have f: "map c_id (filter (\<lambda>c. c_experience_years c \<ge> 7) (consultant_profiles db0)) =
     [''c1'', ''c2'']" by code_simp
  from no_keywords_seven_years [OF k, of _ db0]
  have "scoreLoop (projectKeywordsOf project1) (consultant_profiles db0) [] =
      map (scored []) (filter (\<lambda>c. c_experience_years c \<ge> 7) (consultant_profiles db0))"
    by blast
  then have "map consultant_id (scoreLoop (projectKeywordsOf project1) (consultant_profiles db0) [])
      = map c_id (filter (\<lambda>c. c_experience_years c \<ge> 7) (consultant_profiles db0))"
    by (simp add: scored_def comp_def)
  with k f show ?thesis by simp
qed

section \<open>The keys hold in every reachable state\<close>

lemma insertLoop_distinct:
  "distinct (map pm_id rows) \<Longrightarrow>
   distinct (map pm_id (snd (insertLoop rows projectId now matchIds i ms)))"
  by (induction ms arbitrary: rows i) (simp_all add: Let_def)

lemma map2_matchRow_project:
  "row \<in> set (map2 (matchRow projectId now) is ms) \<Longrightarrow>
   pm_project_id row = projectId \<and> pm_status row = Match_pending"
  by (auto simp: matchRow_def)

lemma generateProjectMatches_distinct:
  "distinct (map pm_id (project_matches db)) \<Longrightarrow>
   distinct (map pm_id (project_matches (snd (generateProjectMatches db project now matchIds))))"
  by (simp add: generateProjectMatches_eq insertLoop_distinct)

lemma generateProjectMatches_new:
  "\<exists>new. project_matches (snd (generateProjectMatches db project now matchIds)) =
       project_matches db @ new \<and>
     (\<forall>row \<in> set new. pm_project_id row = p_id project \<and> pm_status row = Match_pending)"
  using generateProjectMatches_new_rows [of db project now matchIds] by blast

lemma createProject_snd:
  "snd (createProject db smeId projectData projectId now now2 matchIds) =
     (if projectId \<in> p_id ` set (projects db) then db
      else snd (generateProjectMatches
             (db\<lparr>projects := projects db @
                [\<lparr>p_id = projectId, p_sme_id = smeId, p_title = title projectData,
                  p_description = description projectData,
                  p_requirements = requirements projectData,
                  p_budget = budget projectData, p_deadline = deadline projectData,
                  p_status = Status_open, p_created_at = now, p_updated_at = now\<rparr>]\<rparr>)
             \<lparr>p_id = projectId, p_sme_id = smeId, p_title = title projectData,
               p_description = description projectData,
               p_requirements = requirements projectData,
               p_budget = budget projectData, p_deadline = deadline projectData,
               p_status = Status_open, p_created_at = now, p_updated_at = now\<rparr>
             now2 matchIds))"
proof (cases "projectId \<in> p_id ` set (projects db)")
  case True
  then show ?thesis by (simp add: createProject_def)
next
  case False
  then have "find (\<lambda>p. p_id p = projectId) (projects db) = None"
    by (auto simp: find_None_conv)
  with False show ?thesis
    by (simp add: createProject_def Let_def find_append_last split: prod.splits sum.splits)
qed

lemma createProject_matches:
  "\<exists>new. project_matches (snd (createProject db smeId projectData projectId now now2 matchIds)) =
       project_matches db @ new \<and>
     (\<forall>row \<in> set new. pm_project_id row = projectId \<and> pm_status row = Match_pending) \<and>
     (new \<noteq> [] \<longrightarrow> projectId \<notin> p_id ` set (projects db))"
proof (cases "projectId \<in> p_id ` set (projects db)")
  case True
  then have "project_matches (snd (createProject db smeId projectData projectId now now2 matchIds))
      = project_matches db @ []"
    by (simp add: createProject_snd)
  moreover have "\<forall>row \<in> set []. pm_project_id row = projectId \<and> pm_status row = Match_pending"
    by simp
  ultimately show ?thesis by blast
next
  case False
  let ?row = "\<lparr>p_id = projectId, p_sme_id = smeId, p_title = title projectData,
               p_description = description projectData,
               p_requirements = requirements projectData,
               p_budget = budget projectData, p_deadline = deadline projectData,
               p_status = Status_open, p_created_at = now, p_updated_at = now\<rparr>"
  from generateProjectMatches_new [of "db\<lparr>projects := projects db @ [?row]\<rparr>" ?row now2 matchIds]
  obtain new where
    "project_matches (snd (generateProjectMatches (db\<lparr>projects := projects db @ [?row]\<rparr>)
        ?row now2 matchIds)) = project_matches db @ new"
    "\<forall>row \<in> set new. pm_project_id row = projectId \<and> pm_status row = Match_pending"
    by auto
  with False show ?thesis by (simp add: createProject_snd)
qed

lemma createProject_distinct:
  "distinct (map pm_id (project_matches db)) \<Longrightarrow>
   distinct (map pm_id
     (project_matches (snd (createProject db smeId projectData projectId now now2 matchIds))))"
  by (simp add: createProject_snd generateProjectMatches_distinct)

lemma createProject_ids:
  "p_id ` set (projects db) \<subseteq>
   p_id ` set (projects (snd (createProject db smeId projectData projectId now now2 matchIds))) \<and>
   (projectId \<in>
      p_id ` set (projects (snd (createProject db smeId projectData projectId now now2 matchIds))))"
  by (auto simp: createProject_projects)

lemma wellFormed_createProject:
  assumes "wellFormed db"
  shows "wellFormed (snd (createProject db smeId projectData projectId now now2 matchIds))"
proof -
  let ?db' = "snd (createProject db smeId projectData projectId now now2 matchIds)"
  from createProject_matches [of db smeId projectData projectId now now2 matchIds]
  obtain new where new: "project_matches ?db' = project_matches db @ new"
    "\<forall>row \<in> set new. pm_project_id row = projectId \<and> pm_status row = Match_pending"
    by blast
  have "distinct (map pm_id (project_matches ?db'))"
    using assms by (simp add: wellFormed_def createProject_distinct)
  moreover have "\<forall>pm \<in> set (project_matches ?db'). pm_project_id pm \<in> p_id ` set (projects ?db')"
  proof
    fix pm assume "pm \<in> set (project_matches ?db')"
    then consider "pm \<in> set (project_matches db)" | "pm \<in> set new" unfolding new(1) by auto
    then show "pm_project_id pm \<in> p_id ` set (projects ?db')"
    proof cases
      case 1
      with assms have "pm_project_id pm \<in> p_id ` set (projects db)" by (simp add: wellFormed_def)
      with createProject_ids [of db smeId projectData projectId now now2 matchIds]
      show ?thesis by blast
    next
      case 2
      with new(2) have "pm_project_id pm = projectId" by simp
      with createProject_ids [of db smeId projectData projectId now now2 matchIds]
      show ?thesis by simp
    qed
  qed
  ultimately show ?thesis by (simp add: wellFormed_def)
qed

lemma updateProject_matches:
  "project_matches (snd (updateProject db pid smeId projectData now)) = project_matches db"
  by (simp add: updateProject_def Let_def split: option.splits)

lemma updateProject_ids:
  "p_id ` set (projects (snd (updateProject db pid smeId projectData now))) =
   p_id ` set (projects db)"
proof -
  have "map p_id (map (\<lambda>p. if p_id p = pid then applyPatch projectData now p else p) ps) =
      map p_id ps" for ps
    by (induction ps) simp_all
  then have "set (map p_id (map (\<lambda>p. if p_id p = pid then applyPatch projectData now p else p)
      (projects db))) = set (map p_id (projects db))"
    by (rule arg_cong)
  then have "p_id ` set (map (\<lambda>p. if p_id p = pid then applyPatch projectData now p else p)
      (projects db)) = p_id ` set (projects db)"
    by (simp only: set_map)
  then show ?thesis
    by (cases "\<exists>p \<in> set (projects db). p_id p = pid \<and> p_sme_id p = smeId")
      (simp_all only: updateProject_projects if_True if_False)
qed

lemma wellFormed_updateProject:
  "wellFormed db \<Longrightarrow> wellFormed (snd (updateProject db pid smeId projectData now))"
  by (simp add: wellFormed_def updateProject_matches updateProject_ids)

lemma deleteProject_matches:
  "project_matches (snd (deleteProject db pid smeId)) =
     (if \<exists>p \<in> set (projects db). p_id p = pid \<and> p_sme_id p = smeId
      then filter (\<lambda>pm. pm_project_id pm \<noteq> pid) (project_matches db)
      else project_matches db)"
proof (cases "find (\<lambda>p. p_id p = pid \<and> p_sme_id p = smeId) (projects db)")
  case None
  then have "\<not> (\<exists>p \<in> set (projects db). p_id p = pid \<and> p_sme_id p = smeId)"
    by (simp add: find_None_conv)
  with None show ?thesis by (auto simp: deleteProject_def)
next
  case (Some e)
  then have "\<exists>p \<in> set (projects db). p_id p = pid \<and> p_sme_id p = smeId"
    using find_SomeD by fastforce
  with Some show ?thesis by (simp add: deleteProject_def Let_def)
qed

lemma wellFormed_deleteProject:
  assumes "wellFormed db"
  shows "wellFormed (snd (deleteProject db pid smeId))"
proof (cases "\<exists>p \<in> set (projects db). p_id p = pid \<and> p_sme_id p = smeId")
  case False
  then have "project_matches (snd (deleteProject db pid smeId)) = project_matches db"
    and "projects (snd (deleteProject db pid smeId)) = projects db"
    by (simp_all only: deleteProject_matches deleteProject_projects if_False)
  with assms show ?thesis by (simp add: wellFormed_def)
next
  case True
  from assms have "distinct (map pm_id (filter (\<lambda>pm. pm_project_id pm \<noteq> pid) (project_matches db)))"
    by (simp add: wellFormed_def distinct_map_filter)
  moreover from assms have "\<forall>pm \<in> set (filter (\<lambda>pm. pm_project_id pm \<noteq> pid) (project_matches db)).
      pm_project_id pm \<in> p_id ` set (filter (\<lambda>p. p_id p \<noteq> pid) (projects db))"
    by (auto simp: wellFormed_def)
  moreover from True
  have "project_matches (snd (deleteProject db pid smeId)) =
      filter (\<lambda>pm. pm_project_id pm \<noteq> pid) (project_matches db)"
    and "projects (snd (deleteProject db pid smeId)) = filter (\<lambda>p. p_id p \<noteq> pid) (projects db)"
    by (simp_all only: deleteProject_matches deleteProject_projects if_True)
  ultimately show ?thesis by (simp only: wellFormed_def)
qed

lemma submitProposal_matches:
  "project_matches (snd (submitProposal db matchId consultantId proposal price now)) =
     map (\<lambda>pm. if succeeded (submitProposal db matchId consultantId proposal price now) \<and>
                   pm_id pm = matchId
                then withProposal proposal price now pm else pm)
       (project_matches db)"
proof (cases "succeeded (submitProposal db matchId consultantId proposal price now)")
  case True
  then show ?thesis by (simp add: submitProposal_success)
next
  case False
  then show ?thesis by (simp add: submitProposal_fail)
qed

lemma wellFormed_map:
  assumes "wellFormed db"
    and "\<And>pm. pm_id (f pm) = pm_id pm" and "\<And>pm. pm_project_id (f pm) = pm_project_id pm"
    and "\<And>p. p_id (g p) = p_id p"
  shows "wellFormed (db\<lparr>project_matches := map f (project_matches db),
                        projects := map g (projects db)\<rparr>)"
proof -
  let ?db' = "db\<lparr>project_matches := map f (project_matches db),
                 projects := map g (projects db)\<rparr>"
  have sel: "project_matches ?db' = map f (project_matches db)"
    "projects ?db' = map g (projects db)"
    by simp_all
  from assms(1) have d: "distinct (map pm_id (project_matches db))"
    and o: "\<forall>pm \<in> set (project_matches db). pm_project_id pm \<in> p_id ` set (projects db)"
    by (simp_all add: wellFormed_def)
  have ids: "map pm_id (map f (project_matches db)) = map pm_id (project_matches db)"
    by (simp add: assms(2))
  have pids: "p_id ` set (map g (projects db)) = p_id ` set (projects db)"
    by (simp add: image_image assms(4))
  have d': "distinct (map pm_id (map f (project_matches db)))"
    unfolding ids by (rule d)
  have o': "\<forall>pm \<in> set (map f (project_matches db)).
      pm_project_id pm \<in> p_id ` set (map g (projects db))"
    unfolding pids using o by (auto simp: assms(3))
  from d' o' show ?thesis unfolding wellFormed_def sel by (rule conjI)
qed

lemma wellFormed_submitProposal:
  assumes "wellFormed db"
  shows "wellFormed (snd (submitProposal db matchId consultantId proposal price now))"
proof -
  let ?f = "\<lambda>pm. if succeeded (submitProposal db matchId consultantId proposal price now) \<and>
                   pm_id pm = matchId
                then withProposal proposal price now pm else pm"
  have "wellFormed (db\<lparr>project_matches := map ?f (project_matches db),
                        projects := map (\<lambda>p. p) (projects db)\<rparr>)"
    by (rule wellFormed_map [OF assms]) (simp_all add: withProposal_def)
  moreover have "snd (submitProposal db matchId consultantId proposal price now) =
      db\<lparr>project_matches := map ?f (project_matches db),
         projects := map (\<lambda>p. p) (projects db)\<rparr>"
  proof (cases "succeeded (submitProposal db matchId consultantId proposal price now)")
    case True
    then show ?thesis by (simp add: submitProposal_success)
  next
    case False
    then show ?thesis by (simp add: submitProposal_fail)
  qed
  ultimately show ?thesis by (simp only:)
qed

lemma wellFormed_updateMatchStatus:
  assumes "wellFormed db"
  shows "wellFormed (snd (updateMatchStatus db matchId smeId status now))"
proof (cases "ownedMatch db matchId smeId")
  case None
  with assms show ?thesis by (simp add: updateMatchStatus_none)
next
  case (Some m)
  have "wellFormed (db\<lparr>project_matches :=
                 map (afterStatus matchId (pm_project_id m) status now) (project_matches db),
               projects := map (cascade (pm_project_id m) status now) (projects db)\<rparr>)"
    by (rule wellFormed_map [OF assms]) simp_all
  moreover from updateMatchStatus_some [OF Some, of status now]
  have "snd (updateMatchStatus db matchId smeId status now) =
      db\<lparr>project_matches :=
                 map (afterStatus matchId (pm_project_id m) status now) (project_matches db),
               projects := map (cascade (pm_project_id m) status now) (projects db)\<rparr>"
    by (rule conjunct1)
  ultimately show ?thesis by (simp only:)
qed

lemma wellFormed_exec: "wellFormed db \<Longrightarrow> wellFormed (exec op db)"
  by (cases op)
    (simp_all add: wellFormed_createProject wellFormed_updateProject wellFormed_deleteProject
      wellFormed_submitProposal wellFormed_updateMatchStatus)

lemma reachable_wellFormed: "reachable db \<Longrightarrow> wellFormed db"
proof (induction rule: reachable.induct)
  case (initial cs)
  show ?case by (simp add: wellFormed_def)
next
  case (step db op)
  then show ?case by (simp add: wellFormed_exec)
next
  case (pool db cs)
  then show ?case by (simp add: wellFormed_def)
qed

section \<open>Accepting a match\<close>

lemma length_filter_key:
  "distinct (map k xs) \<Longrightarrow> x \<in> set xs \<Longrightarrow> length (filter (\<lambda>y. k y = k x) xs) = 1"
proof (induction xs)
  case Nil
  then show ?case by simp
next
  case (Cons a xs)
  show ?case
  proof (cases "k a = k x")
    case True
    with Cons.prems have "\<forall>y \<in> set xs. k y \<noteq> k x" by (auto simp: image_iff)
    then have "filter (\<lambda>y. k y = k x) xs = []" by (simp add: filter_empty_conv)
    with True show ?thesis by simp
  next
    case False
    with Cons show ?thesis by auto
  qed
qed

lemma length_filter_disj:
  "(\<And>x. \<not> (A x \<and> B x)) \<Longrightarrow>
   length (filter (\<lambda>x. A x \<or> B x) xs) = length (filter A xs) + length (filter B xs)"
  by (induction xs) auto

lemma length_filter_map_le:
  "(\<And>x. x \<in> set xs \<Longrightarrow> P (f x) \<Longrightarrow> P x) \<Longrightarrow>
   length (filter P (map f xs)) \<le> length (filter P xs)"
  by (induction xs) auto

lemma filter_map_same:
  "\<forall>x \<in> set xs. P (f x) \<or> P x \<longrightarrow> f x = x \<Longrightarrow> filter P (map f xs) = filter P xs"
  by (induction xs) auto

lemma ownedMatch_unique:
  assumes "wellFormed db" and "ownedMatch db matchId smeId = Some m"
    and "pm \<in> set (project_matches db)" and "pm_id pm = matchId"
  shows "pm = m"
proof -
  from assms(2) have "m \<in> set (project_matches db)" "pm_id m = matchId"
    using ownedMatch_SomeD by blast+
  with assms(1,3,4) show ?thesis
    using key_unique [of pm_id "project_matches db" pm m] by (simp add: wellFormed_def)
qed

text \<open>The accepted matches of the project after an accept: the target and the siblings
  that were accepted before.\<close>

lemma accept_accepted_count:
  assumes wf: "wellFormed db" and own: "ownedMatch db matchId smeId = Some m"
  shows "length (matchesWith (snd (updateMatchStatus db matchId smeId To_accepted now))
            (pm_project_id m) Match_accepted) =
         1 + length (filter (\<lambda>pm. pm_project_id pm = pm_project_id m \<and> pm_id pm \<noteq> matchId \<and>
                               pm_status pm = Match_accepted) (project_matches db))"
proof -
  let ?P = "pm_project_id m"
  let ?af = "afterStatus matchId ?P To_accepted now"
  from own have m: "m \<in> set (project_matches db)" "pm_id m = matchId"
    using ownedMatch_SomeD by blast+
  have rows: "project_matches (snd (updateMatchStatus db matchId smeId To_accepted now)) =
      map ?af (project_matches db)"
    using updateMatchStatus_some [OF own, of To_accepted now] by simp
  have cond: "(pm_project_id pm = ?P \<and> pm_status (?af pm) = Match_accepted) \<longleftrightarrow>
      (pm_id pm = pm_id m \<or>
       (pm_project_id pm = ?P \<and> pm_id pm \<noteq> matchId \<and> pm_status pm = Match_accepted))"
    if "pm \<in> set (project_matches db)" for pm
  proof (cases "pm_id pm = matchId")
    case True
    with that have "pm = m" using ownedMatch_unique [OF wf own] by blast
    with True m(2) show ?thesis by (simp add: afterStatus_def)
  next
    case False
    with m(2) show ?thesis by (auto simp: afterStatus_def)
  qed
  have "length (matchesWith (snd (updateMatchStatus db matchId smeId To_accepted now)) ?P
            Match_accepted) =
        length (filter ((\<lambda>pm. pm_project_id pm = ?P \<and> pm_status pm = Match_accepted) \<circ> ?af)
                  (project_matches db))"
    unfolding matchesWith_def rows filter_map by simp
  also have "\<dots> = length (filter (\<lambda>pm. pm_id pm = pm_id m \<or>
       (pm_project_id pm = ?P \<and> pm_id pm \<noteq> matchId \<and> pm_status pm = Match_accepted))
       (project_matches db))"
    by (rule arg_cong [where f = length], rule filter_cong) (simp_all add: cond)
  also have "\<dots> = length (filter (\<lambda>pm. pm_id pm = pm_id m) (project_matches db)) +
      length (filter (\<lambda>pm. pm_project_id pm = ?P \<and> pm_id pm \<noteq> matchId \<and>
                               pm_status pm = Match_accepted) (project_matches db))"
    by (rule length_filter_disj) (simp add: m(2))
  also have "length (filter (\<lambda>pm. pm_id pm = pm_id m) (project_matches db)) = 1"
    using wf m(1) by (simp add: wellFormed_def length_filter_key)
  finally show ?thesis .
qed

lemma accept_siblings:
  assumes own: "ownedMatch db matchId smeId = Some m"
    and pm: "pm \<in> set (project_matches db)" "pm_id pm \<noteq> matchId"
  shows "afterStatus matchId (pm_project_id m) To_accepted now pm \<in>
           set (project_matches (snd (updateMatchStatus db matchId smeId To_accepted now))) \<and>
         pm_status (afterStatus matchId (pm_project_id m) To_accepted now pm) =
           (if pm_project_id pm = pm_project_id m \<and> pm_status pm = Match_pending
            then Match_rejected else pm_status pm)"
proof -
  have rows: "project_matches (snd (updateMatchStatus db matchId smeId To_accepted now)) =
      map (afterStatus matchId (pm_project_id m) To_accepted now) (project_matches db)"
    using updateMatchStatus_some [OF own, of To_accepted now] by simp
  from pm(1) have "afterStatus matchId (pm_project_id m) To_accepted now pm \<in>
      set (map (afterStatus matchId (pm_project_id m) To_accepted now) (project_matches db))"
    by simp
  moreover from pm(2) have "pm_status (afterStatus matchId (pm_project_id m) To_accepted now pm) =
           (if pm_project_id pm = pm_project_id m \<and> pm_status pm = Match_pending
            then Match_rejected else pm_status pm)"
    by (simp add: afterStatus_def)
  ultimately show ?thesis unfolding rows by (rule conjI)
qed

lemma matchStatus_after:
  assumes "ownedMatch db matchId smeId = Some m"
  shows "matchStatus (snd (updateMatchStatus db matchId smeId status now)) k =
     map_option (\<lambda>pm. pm_status (afterStatus matchId (pm_project_id m) status now pm))
       (find (\<lambda>pm. pm_id pm = k) (project_matches db))"
proof -
  have rows: "project_matches (snd (updateMatchStatus db matchId smeId status now)) =
      map (afterStatus matchId (pm_project_id m) status now) (project_matches db)"
    using updateMatchStatus_some [OF assms, of status now] by simp
  have "find (\<lambda>pm. pm_id pm = k)
          (map (afterStatus matchId (pm_project_id m) status now) (project_matches db)) =
        map_option (afterStatus matchId (pm_project_id m) status now)
          (find (\<lambda>pm. pm_id pm = k) (project_matches db))"
    by (rule find_map_keep) simp
  then show ?thesis unfolding matchStatus_def rows by (simp add: option.map_comp comp_def)
qed


lemma succeeded_ownedMatch:
  assumes "wellFormed db" and "succeeded (updateMatchStatus db matchId smeId status now)"
    and "m \<in> set (project_matches db)" and "pm_id m = matchId"
  shows "ownedMatch db matchId smeId = Some m"
proof (cases "ownedMatch db matchId smeId")
  case None
  with assms(2) show ?thesis by (simp add: updateMatchStatus_none succeeded_def)
next
  case (Some m')
  from assms(1) Some assms(3,4) have "m = m'" by (rule ownedMatch_unique)
  with Some show ?thesis by simp
qed

text \<open>
  Claim C1, as the code has it. In a reachable state, after a successful call
  \<open>updateMatchStatus\<close> with \<open>'accepted'\<close> on a match \<open>m\<close> of project \<open>P\<close>: \<open>m\<close> is accepted,
  \<open>P\<close> is in progress, every sibling that was pending is rejected and every other match
  keeps its status. The accepted matches of \<open>P\<close> are then \<open>m\<close> and the siblings that were
  accepted before the call: exactly one match of \<open>P\<close> is accepted when no sibling was.
\<close>

theorem accept_effect:
  assumes "reachable db"
    and "succeeded (updateMatchStatus db matchId smeId To_accepted now)"
    and "m \<in> set (project_matches db)" and "pm_id m = matchId"
  shows "matchStatus (snd (updateMatchStatus db matchId smeId To_accepted now)) matchId =
           Some Match_accepted \<and>
         projectStatus (snd (updateMatchStatus db matchId smeId To_accepted now))
           (pm_project_id m) = Some Status_in_progress \<and>
         (\<forall>pm \<in> set (project_matches db). pm_id pm \<noteq> matchId \<longrightarrow>
            matchStatus (snd (updateMatchStatus db matchId smeId To_accepted now)) (pm_id pm) =
              Some (if pm_project_id pm = pm_project_id m \<and> pm_status pm = Match_pending
                    then Match_rejected else pm_status pm)) \<and>
         length (matchesWith (snd (updateMatchStatus db matchId smeId To_accepted now))
                   (pm_project_id m) Match_accepted) =
           1 + length (filter (\<lambda>pm. pm_project_id pm = pm_project_id m \<and> pm_id pm \<noteq> matchId \<and>
                                 pm_status pm = Match_accepted) (project_matches db)) \<and>
         (filter (\<lambda>pm. pm_project_id pm = pm_project_id m \<and> pm_id pm \<noteq> matchId \<and>
                       pm_status pm = Match_accepted) (project_matches db) = [] \<longrightarrow>
            length (matchesWith (snd (updateMatchStatus db matchId smeId To_accepted now))
                      (pm_project_id m) Match_accepted) = 1)"
proof -
  let ?db' = "snd (updateMatchStatus db matchId smeId To_accepted now)"
  from assms(1) have wf: "wellFormed db" by (rule reachable_wellFormed)
  then have dist: "distinct (map pm_id (project_matches db))" by (simp add: wellFormed_def)
  from wf assms(2,3,4) have own: "ownedMatch db matchId smeId = Some m"
    by (rule succeeded_ownedMatch)
  have found: "find (\<lambda>x. pm_id x = pm_id pm) (project_matches db) = Some pm"
    if "pm \<in> set (project_matches db)" for pm
    using dist that by (rule find_key)
  have "matchStatus ?db' (pm_id m) = Some Match_accepted"
    unfolding matchStatus_after [OF own] found [OF assms(3)]
    by (simp add: afterStatus_def assms(4))
  then have c1: "matchStatus ?db' matchId = Some Match_accepted" by (simp only: assms(4))
  have c2: "projectStatus ?db' (pm_project_id m) = Some Status_in_progress"
    by (simp add: projectStatus_updateMatchStatus own)
  have c3: "\<forall>pm \<in> set (project_matches db). pm_id pm \<noteq> matchId \<longrightarrow>
            matchStatus ?db' (pm_id pm) =
              Some (if pm_project_id pm = pm_project_id m \<and> pm_status pm = Match_pending
                    then Match_rejected else pm_status pm)"
  proof (intro ballI impI)
    fix pm assume pm: "pm \<in> set (project_matches db)" "pm_id pm \<noteq> matchId"
    show "matchStatus ?db' (pm_id pm) =
              Some (if pm_project_id pm = pm_project_id m \<and> pm_status pm = Match_pending
                    then Match_rejected else pm_status pm)"
      unfolding matchStatus_after [OF own] found [OF pm(1)]
      using pm(2) by (simp add: afterStatus_def)
  qed
  have c4: "length (matchesWith ?db' (pm_project_id m) Match_accepted) =
           1 + length (filter (\<lambda>pm. pm_project_id pm = pm_project_id m \<and> pm_id pm \<noteq> matchId \<and>
                                 pm_status pm = Match_accepted) (project_matches db))"
    using wf own by (rule accept_accepted_count)
  then have c5: "filter (\<lambda>pm. pm_project_id pm = pm_project_id m \<and> pm_id pm \<noteq> matchId \<and>
                       pm_status pm = Match_accepted) (project_matches db) = [] \<longrightarrow>
            length (matchesWith ?db' (pm_project_id m) Match_accepted) = 1"
    by simp
  from c1 c2 c3 c4 c5 show ?thesis by blast
qed

lemma reachable_db1: "reachable db1"
  unfolding db1_def db0_def by (intro reachable.step reachable.initial)

lemma reachable_db2: "reachable db2"
  unfolding db2_def by (intro reachable.step reachable_db1)

theorem accept_effect_witness:
  "reachable db1 \<and>
   succeeded (updateMatchStatus db1 ''m0'' ''s1'' To_accepted ''t1'') \<and>
   matchStatus db1 ''m1'' = Some Match_pending \<and>
   matchStatus (snd (updateMatchStatus db1 ''m0'' ''s1'' To_accepted ''t1'')) ''m0'' =
     Some Match_accepted \<and>
   matchStatus (snd (updateMatchStatus db1 ''m0'' ''s1'' To_accepted ''t1'')) ''m1'' =
     Some Match_rejected \<and>
   projectStatus (snd (updateMatchStatus db1 ''m0'' ''s1'' To_accepted ''t1'')) ''p1'' =
     Some Status_in_progress \<and>
   length (matchesWith (snd (updateMatchStatus db1 ''m0'' ''s1'' To_accepted ''t1''))
             ''p1'' Match_accepted) = 1"
proof -
  let ?m = "hd (project_matches db1)"
  let ?db' = "snd (updateMatchStatus db1 ''m0'' ''s1'' To_accepted ''t1'')"
  have s: "succeeded (updateMatchStatus db1 ''m0'' ''s1'' To_accepted ''t1'')" by code_simp
  have m: "?m \<in> set (project_matches db1)" "pm_id ?m = ''m0''" "pm_project_id ?m = ''p1''"
    by code_simp+
  have none: "filter (\<lambda>pm. pm_project_id pm = pm_project_id ?m \<and> pm_id pm \<noteq> ''m0'' \<and>
                       pm_status pm = Match_accepted) (project_matches db1) = []"
    by code_simp
  have p: "matchStatus db1 ''m1'' = Some Match_pending" by code_simp
  have r: "matchStatus ?db' ''m1'' = Some Match_rejected" by code_simp
  note t = accept_effect [OF reachable_db1 s m(1,2)]
  from t have a: "matchStatus ?db' ''m0'' = Some Match_accepted" by (rule conjunct1)
  from t have b: "projectStatus ?db' ''p1'' = Some Status_in_progress"
    unfolding m(3) by blast
  from t none have c: "length (matchesWith ?db' ''p1'' Match_accepted) = 1"
    unfolding m(3) by blast
  from reachable_db1 s p a r b c show ?thesis by blast
qed

text \<open>The claim as the specification states it fails: with one match of the project
  accepted, accepting a second, rejected one succeeds and leaves two accepted matches.\<close>

theorem accept_twice:
  "reachable db2 \<and>
   matchStatus db2 ''m0'' = Some Match_accepted \<and>
   matchStatus db2 ''m1'' = Some Match_rejected \<and>
   succeeded (updateMatchStatus db2 ''m1'' ''s1'' To_accepted ''t2'') \<and>
   length (matchesWith (snd (updateMatchStatus db2 ''m1'' ''s1'' To_accepted ''t2''))
             ''p1'' Match_accepted) = 2"
proof -
  have "matchStatus db2 ''m0'' = Some Match_accepted \<and>
   matchStatus db2 ''m1'' = Some Match_rejected \<and>
   succeeded (updateMatchStatus db2 ''m1'' ''s1'' To_accepted ''t2'') \<and>
   length (matchesWith (snd (updateMatchStatus db2 ''m1'' ''s1'' To_accepted ''t2''))
             ''p1'' Match_accepted) = 2"
    by code_simp
  with reachable_db2 show ?thesis by (rule conjI)
qed

section \<open>At most one accepted match\<close>

lemma singleAccept_shrink:
  assumes "singleAccept db"
    and "\<And>projectId st. st = Match_accepted \<or> st = Match_pending \<Longrightarrow>
           length (matchesWith db' projectId st) \<le> length (matchesWith db projectId st)"
  shows "singleAccept db'"
  unfolding singleAccept_def
proof (intro allI conjI impI)
  fix projectId
  from assms(1) have inv: "length (matchesWith db projectId Match_accepted) \<le> 1"
    "matchesWith db projectId Match_accepted \<noteq> [] \<longrightarrow> matchesWith db projectId Match_pending = []"
    by (simp_all add: singleAccept_def)
  have acc: "length (matchesWith db' projectId Match_accepted) \<le>
      length (matchesWith db projectId Match_accepted)"
    by (rule assms(2)) simp
  have pend: "length (matchesWith db' projectId Match_pending) \<le>
      length (matchesWith db projectId Match_pending)"
    by (rule assms(2)) simp
  from inv(1) acc show "length (matchesWith db' projectId Match_accepted) \<le> 1" by linarith
  assume "matchesWith db' projectId Match_accepted \<noteq> []"
  then have "length (matchesWith db' projectId Match_accepted) > 0" by simp
  with acc have "matchesWith db projectId Match_accepted \<noteq> []" by auto
  with inv(2) have "length (matchesWith db projectId Match_pending) = 0" by simp
  with pend show "matchesWith db' projectId Match_pending = []" by simp
qed

lemma matchesWith_map_le:
  assumes "project_matches db' = map f (project_matches db)"
    and "\<And>pm. pm \<in> set (project_matches db) \<Longrightarrow>
           pm_project_id (f pm) = projectId \<and> pm_status (f pm) = st \<Longrightarrow>
           pm_project_id pm = projectId \<and> pm_status pm = st"
  shows "length (matchesWith db' projectId st) \<le> length (matchesWith db projectId st)"
  unfolding matchesWith_def assms(1)
  by (rule length_filter_map_le) (rule assms(2))

lemma singleAccept_updateProject:
  assumes "singleAccept db"
  shows "singleAccept (snd (updateProject db pid smeId projectData now))"
proof (rule singleAccept_shrink [OF assms])
  fix projectId st
  show "length (matchesWith (snd (updateProject db pid smeId projectData now)) projectId st) \<le>
      length (matchesWith db projectId st)"
    by (simp add: matchesWith_def updateProject_matches)
qed

lemma length_filter_filter_le: "length (filter P (filter Q xs)) \<le> length (filter P xs)"
  by (induction xs) auto

lemma singleAccept_deleteProject:
  assumes "singleAccept db"
  shows "singleAccept (snd (deleteProject db pid smeId))"
proof (rule singleAccept_shrink [OF assms])
  fix projectId st
  show "length (matchesWith (snd (deleteProject db pid smeId)) projectId st) \<le>
      length (matchesWith db projectId st)"
    by (cases "\<exists>p \<in> set (projects db). p_id p = pid \<and> p_sme_id p = smeId")
      (simp_all only: matchesWith_def deleteProject_matches if_True if_False
        length_filter_filter_le order_refl)
qed

lemma singleAccept_submitProposal:
  assumes "singleAccept db"
  shows "singleAccept (snd (submitProposal db matchId consultantId proposal price now))"
proof (rule singleAccept_shrink [OF assms])
  fix projectId st
  show "length (matchesWith (snd (submitProposal db matchId consultantId proposal price now))
          projectId st) \<le> length (matchesWith db projectId st)"
  proof (rule matchesWith_map_le [OF submitProposal_matches])
    fix pm
    assume "pm_project_id (if succeeded (submitProposal db matchId consultantId proposal price now) \<and>
                   pm_id pm = matchId
                then withProposal proposal price now pm else pm) = projectId \<and>
        pm_status (if succeeded (submitProposal db matchId consultantId proposal price now) \<and>
                   pm_id pm = matchId
                then withProposal proposal price now pm else pm) = st"
    then show "pm_project_id pm = projectId \<and> pm_status pm = st"
      by (cases "succeeded (submitProposal db matchId consultantId proposal price now) \<and>
                   pm_id pm = matchId") (simp_all add: withProposal_def)
  qed
qed

lemma afterStatus_other_keeps:
  assumes "status \<noteq> To_accepted" and "st = Match_accepted \<or> st = Match_pending"
    and "pm_status (afterStatus matchId projectId status now pm) = st"
  shows "pm_status pm = st"
proof (cases "pm_id pm = matchId")
  case True
  with assms(3) have "status_of status = st" by (simp add: afterStatus_def)
  with assms(1,2) show ?thesis by (cases status) auto
next
  case False
  with assms(1,3) show ?thesis by (simp add: afterStatus_def)
qed

lemma singleAccept_other_status:
  assumes "singleAccept db" and "status \<noteq> To_accepted"
  shows "singleAccept (snd (updateMatchStatus db matchId smeId status now))"
proof (cases "ownedMatch db matchId smeId")
  case None
  with assms(1) show ?thesis by (simp add: updateMatchStatus_none)
next
  case (Some m)
  have rows: "project_matches (snd (updateMatchStatus db matchId smeId status now)) =
      map (afterStatus matchId (pm_project_id m) status now) (project_matches db)"
    using updateMatchStatus_some [OF Some, of status now] by simp
  show ?thesis
  proof (rule singleAccept_shrink [OF assms(1)])
    fix projectId st
    assume st: "st = Match_accepted \<or> st = Match_pending"
    show "length (matchesWith (snd (updateMatchStatus db matchId smeId status now)) projectId st)
      \<le> length (matchesWith db projectId st)"
    proof (rule matchesWith_map_le [OF rows])
      fix pm
      assume "pm_project_id (afterStatus matchId (pm_project_id m) status now pm) = projectId \<and>
        pm_status (afterStatus matchId (pm_project_id m) status now pm) = st"
      then have "pm_project_id pm = projectId"
        and "pm_status (afterStatus matchId (pm_project_id m) status now pm) = st"
        by simp_all
      with afterStatus_other_keeps [OF assms(2) st]
      show "pm_project_id pm = projectId \<and> pm_status pm = st" by blast
    qed
  qed
qed


lemma singleAccept_accept:
  assumes wf: "wellFormed db" and inv: "singleAccept db"
    and own: "ownedMatch db matchId smeId = Some m" and pend: "pm_status m = Match_pending"
  shows "singleAccept (snd (updateMatchStatus db matchId smeId To_accepted now))"
  unfolding singleAccept_def
proof
  fix projectId
  let ?db' = "snd (updateMatchStatus db matchId smeId To_accepted now)"
  let ?af = "afterStatus matchId (pm_project_id m) To_accepted now"
  from own have m: "m \<in> set (project_matches db)" "pm_id m = matchId"
    using ownedMatch_SomeD by blast+
  have rows: "project_matches ?db' = map ?af (project_matches db)"
    using updateMatchStatus_some [OF own, of To_accepted now] by simp
  show "length (matchesWith ?db' projectId Match_accepted) \<le> 1 \<and>
        (matchesWith ?db' projectId Match_accepted \<noteq> [] \<longrightarrow>
           matchesWith ?db' projectId Match_pending = [])"
  proof (cases "projectId = pm_project_id m")
    case False
    have same: "matchesWith ?db' projectId st = matchesWith db projectId st" for st
      unfolding matchesWith_def rows
    proof (rule filter_map_same, intro ballI impI)
      fix pm
      assume pm: "pm \<in> set (project_matches db)"
        and "(pm_project_id (?af pm) = projectId \<and> pm_status (?af pm) = st) \<or>
             (pm_project_id pm = projectId \<and> pm_status pm = st)"
      then have other: "pm_project_id pm \<noteq> pm_project_id m" using False by auto
      have "pm_id pm \<noteq> matchId"
      proof
        assume "pm_id pm = matchId"
        with pm have "pm = m" using ownedMatch_unique [OF wf own] by blast
        with other show False by simp
      qed
      with other show "?af pm = pm" by (simp add: afterStatus_def)
    qed
    from inv show ?thesis unfolding same by (simp add: singleAccept_def)
  next
    case True
    from m(1) pend have "m \<in> set (matchesWith db (pm_project_id m) Match_pending)"
      by (simp add: matchesWith_def)
    then have "matchesWith db (pm_project_id m) Match_pending \<noteq> []" by auto
    with inv have none: "matchesWith db (pm_project_id m) Match_accepted = []"
      unfolding singleAccept_def by blast
    have "filter (\<lambda>pm. pm_project_id pm = pm_project_id m \<and> pm_id pm \<noteq> matchId \<and>
                    pm_status pm = Match_accepted) (project_matches db) = []"
    proof (rule ccontr)
      assume "filter (\<lambda>pm. pm_project_id pm = pm_project_id m \<and> pm_id pm \<noteq> matchId \<and>
                    pm_status pm = Match_accepted) (project_matches db) \<noteq> []"
      then obtain pm where "pm \<in> set (project_matches db)" "pm_project_id pm = pm_project_id m"
        "pm_status pm = Match_accepted"
        by (auto simp: filter_empty_conv)
      then have "pm \<in> set (matchesWith db (pm_project_id m) Match_accepted)"
        by (simp add: matchesWith_def)
      with none show False by simp
    qed
    with accept_accepted_count [OF wf own, of now]
    have one: "length (matchesWith ?db' (pm_project_id m) Match_accepted) = 1" by simp
    have "\<forall>row \<in> set (map ?af (project_matches db)).
        \<not> (pm_project_id row = pm_project_id m \<and> pm_status row = Match_pending)"
      by (auto simp: afterStatus_def)
    then have "matchesWith ?db' (pm_project_id m) Match_pending = []"
      unfolding matchesWith_def rows by (simp only: filter_empty_conv)
    with one True show ?thesis by simp
  qed
qed

lemma singleAccept_createProject:
  assumes wf: "wellFormed db" and inv: "singleAccept db"
  shows "singleAccept (snd (createProject db smeId projectData pid now now2 matchIds))"
  unfolding singleAccept_def
proof
  fix projectId
  let ?db' = "snd (createProject db smeId projectData pid now now2 matchIds)"
  from createProject_matches [of db smeId projectData pid now now2 matchIds]
  obtain new where new: "project_matches ?db' = project_matches db @ new"
    "\<forall>row \<in> set new. pm_project_id row = pid \<and> pm_status row = Match_pending"
    "new \<noteq> [] \<longrightarrow> pid \<notin> p_id ` set (projects db)"
    by blast
  from new(2) have "filter (\<lambda>pm. pm_project_id pm = projectId \<and> pm_status pm = Match_accepted) new
      = []"
    by (auto simp: filter_empty_conv)
  then have acc: "matchesWith ?db' projectId Match_accepted = matchesWith db projectId Match_accepted"
    unfolding matchesWith_def new(1) by simp
  have pend: "matchesWith ?db' projectId Match_pending = []"
    if some: "matchesWith db projectId Match_accepted \<noteq> []"
  proof -
    from some obtain pm where "pm \<in> set (project_matches db)" "pm_project_id pm = projectId"
      by (auto simp: matchesWith_def filter_empty_conv)
    with wf have known: "projectId \<in> p_id ` set (projects db)" by (auto simp: wellFormed_def)
    have "filter (\<lambda>pm. pm_project_id pm = projectId \<and> pm_status pm = Match_pending) new = []"
    proof (cases "projectId = pid")
      case True
      with known new(3) have "new = []" by blast
      then show ?thesis by simp
    next
      case False
      with new(2) show ?thesis by (auto simp: filter_empty_conv)
    qed
    moreover from inv some have "matchesWith db projectId Match_pending = []"
      unfolding singleAccept_def by blast
    ultimately show ?thesis unfolding matchesWith_def new(1) by simp
  qed
  from inv have "length (matchesWith db projectId Match_accepted) \<le> 1"
    unfolding singleAccept_def by blast
  with pend show "length (matchesWith ?db' projectId Match_accepted) \<le> 1 \<and>
        (matchesWith ?db' projectId Match_accepted \<noteq> [] \<longrightarrow>
           matchesWith ?db' projectId Match_pending = [])"
    unfolding acc by blast
qed

lemma singleAccept_exec:
  assumes "wellFormed db" and "singleAccept db" and "acceptsPendingOnly op db"
  shows "singleAccept (exec op db)"
proof (cases op)
  case (CreateProject smeId projectData pid now now2 matchIds)
  with assms(1,2) show ?thesis by (simp add: singleAccept_createProject)
next
  case (UpdateProject pid smeId projectData now)
  with assms(2) show ?thesis by (simp add: singleAccept_updateProject)
next
  case (DeleteProject pid smeId)
  with assms(2) show ?thesis by (simp add: singleAccept_deleteProject)
next
  case (SubmitProposal matchId consultantId proposal price now)
  with assms(2) show ?thesis by (simp add: singleAccept_submitProposal)
next
  case op: (UpdateMatchStatus matchId smeId status now)
  show ?thesis
  proof (cases "status = To_accepted")
    case False
    with assms(2) op show ?thesis by (simp add: singleAccept_other_status)
  next
    case True
    show ?thesis
    proof (cases "ownedMatch db matchId smeId")
      case None
      with assms(2) op show ?thesis by (simp add: updateMatchStatus_none)
    next
      case (Some m)
      with assms(3) op True have "pm_status m = Match_pending" by simp
      with assms(1,2) Some have
        "singleAccept (snd (updateMatchStatus db matchId smeId To_accepted now))"
        by (rule singleAccept_accept)
      with op True show ?thesis by simp
    qed
  qed
qed

lemma reachableGuarded_invariant: "reachableGuarded db \<Longrightarrow> wellFormed db \<and> singleAccept db"
proof (induction rule: reachableGuarded.induct)
  case (g_initial cs)
  show ?case by (simp add: wellFormed_def singleAccept_def matchesWith_def)
next
  case (g_step db op)
  then show ?case by (simp add: wellFormed_exec singleAccept_exec)
next
  case (g_pool db cs)
  then show ?case by (simp add: wellFormed_def singleAccept_def matchesWith_def)
qed

text \<open>
  Claim C3, as the code has it. In every state reached by core operations of which each
  \<open>updateMatchStatus\<close> with \<open>'accepted'\<close> finds its match pending (the rule of the
  specification, which the code itself does not check), every project has at most one
  accepted match.
\<close>

theorem at_most_one_accepted:
  assumes "reachableGuarded db"
  shows "length (matchesWith db projectId Match_accepted) \<le> 1"
  using reachableGuarded_invariant [OF assms] unfolding singleAccept_def by blast

lemma reachableGuarded_db2: "reachableGuarded db2"
proof -
  have "reachableGuarded db0" unfolding db0_def by (rule reachableGuarded.g_initial)
  moreover have "acceptsPendingOnly opCreate db0" by (simp add: opCreate_def)
  ultimately have "reachableGuarded db1" unfolding db1_def by (rule reachableGuarded.g_step)
  moreover have "acceptsPendingOnly (UpdateMatchStatus ''m0'' ''s1'' To_accepted ''t1'') db1"
    by code_simp
  ultimately show ?thesis unfolding db2_def by (rule reachableGuarded.g_step)
qed

theorem at_most_one_accepted_witness:
  "reachableGuarded db2 \<and> length (matchesWith db2 ''p1'' Match_accepted) = 1 \<and>
   length (matchesWith db2 ''p1'' Match_accepted) \<le> 1"
proof -
  have "length (matchesWith db2 ''p1'' Match_accepted) = 1" by code_simp
  with reachableGuarded_db2 at_most_one_accepted [OF reachableGuarded_db2, of "''p1''"]
  show ?thesis by blast
qed

text \<open>The claim as the specification states it fails: the state after accepting both
  matches of the project is reachable and has two accepted matches.\<close>

theorem two_accepted_reachable:
  "reachable db3 \<and> length (matchesWith db3 ''p1'' Match_accepted) = 2"
proof -
  have "reachable db3" unfolding db3_def by (intro reachable.step reachable_db2)
  moreover have "length (matchesWith db3 ''p1'' Match_accepted) = 2" by code_simp
  ultimately show ?thesis by (rule conjI)
qed

end
